theory Spec2Isabelle
  imports Main "HOL-Library.AList" "HOL-Library.Multiset"
begin

section \<open>The text input converter of geoip (plugin/plaintext/text\_in.go)\<close>

text \<open>
  Go strings are byte sequences and are modelled as \<^typ>\<open>string\<close>. The functions of
  package \<^verbatim>\<open>strings\<close> that work on bytes alone (\<^verbatim>\<open>HasPrefix\<close>, \<^verbatim>\<open>TrimPrefix\<close>,
  \<^verbatim>\<open>Index\<close>, \<^verbatim>\<open>Cut\<close>, \<^verbatim>\<open>LastIndex\<close>) are written out. The Unicode-aware ones
  (\<^verbatim>\<open>ToUpper\<close>, \<^verbatim>\<open>ToLower\<close>, \<^verbatim>\<open>TrimSpace\<close>) are fields of the environment record
  below, so every theorem holds for whatever these functions compute.
\<close>

subsection \<open>Package strings, byte level\<close>

definition HasPrefix :: "string \<Rightarrow> string \<Rightarrow> bool" where
  "HasPrefix s pre = (length pre \<le> length s \<and> take (length pre) s = pre)"

definition HasSuffix :: "string \<Rightarrow> string \<Rightarrow> bool" where
  "HasSuffix s suf = (length suf \<le> length s \<and> drop (length s - length suf) s = suf)"

definition TrimPrefix :: "string \<Rightarrow> string \<Rightarrow> string" where
  "TrimPrefix s pre = (if HasPrefix s pre then drop (length pre) s else s)"

definition TrimSuffix :: "string \<Rightarrow> string \<Rightarrow> string" where
  "TrimSuffix s suf = (if HasSuffix s suf then take (length s - length suf) s else s)"

text \<open>\<^verbatim>\<open>strings.Index\<close>: the position of the first occurrence, \<open>None\<close> for Go's \<open>-1\<close>.\<close>

fun Index :: "string \<Rightarrow> string \<Rightarrow> nat option" where
  "Index [] sep = (if sep = [] then Some 0 else None)"
| "Index (c # cs) sep =
     (if HasPrefix (c # cs) sep then Some 0 else map_option Suc (Index cs sep))"

text \<open>\<^verbatim>\<open>strings.LastIndex\<close>: the position of the last occurrence.\<close>

fun LastIndex :: "string \<Rightarrow> string \<Rightarrow> nat option" where
  "LastIndex [] sep = (if sep = [] then Some 0 else None)"
| "LastIndex (c # cs) sep =
     (case LastIndex cs sep of
        Some i \<Rightarrow> Some (Suc i)
      | None \<Rightarrow> if HasPrefix (c # cs) sep then Some 0 else None)"

text \<open>\<^verbatim>\<open>strings.Cut\<close>: before, after, found.\<close>

definition Cut :: "string \<Rightarrow> string \<Rightarrow> string \<times> string \<times> bool" where
  "Cut s sep =
     (case Index s sep of
        Some i \<Rightarrow> (take i s, drop (i + length sep) s, True)
      | None \<Rightarrow> (s, [], False))"

subsection \<open>Comment stripping (scanFile, lines 269 to 271)\<close>

definition stripComments :: "string \<Rightarrow> string" where
  "stripComments line0 =
     (let (line1, _, _) = Cut line0 ''#'';
          (line2, _, _) = Cut line1 ''//'';
          (line3, _, _) = Cut line2 ''/*''
      in line3)"

text \<open>
  The specification's wording, for comparison: a marker occurs at a position when it is a
  prefix of the rest of the line there, and the line is cut at the first position where any
  of the three markers occurs.
\<close>

definition markerAt :: "string \<Rightarrow> bool" where
  "markerAt s = (HasPrefix s ''#'' \<or> HasPrefix s ''//'' \<or> HasPrefix s ''/*'')"

fun firstMarker :: "string \<Rightarrow> nat option" where
  "firstMarker [] = None"
| "firstMarker (c # cs) =
     (if markerAt (c # cs) then Some 0 else map_option Suc (firstMarker cs))"

definition cutAtFirstMarker :: "string \<Rightarrow> string" where
  "cutAtFirstMarker line = (case firstMarker line of Some i \<Rightarrow> take i line | None \<Rightarrow> line)"

subsection \<open>Package path/filepath (Unix separators) and the file-name pattern\<close>

text \<open>\<^verbatim>\<open>filepath.Base\<close>: the last element of the path, trailing separators removed.\<close>

definition Base :: "string \<Rightarrow> string" where
  "Base path =
     (if path = [] then ''.''
      else let stripped = rev (dropWhile (\<lambda>c. c = CHR ''/'') (rev path));
               elem = rev (takeWhile (\<lambda>c. c \<noteq> CHR ''/'') (rev stripped))
           in if elem = [] then ''/'' else elem)"

text \<open>The regular expression \<^verbatim>\<open>^[a-zA-Z0-9_.\-]+$\<close> of line 202.\<close>

definition nameChars :: "char set" where
  "nameChars = set ''abcdefghijklmnopqrstuvwxyzABCDEFGHIJKLMNOPQRSTUVWXYZ0123456789_.-''"

definition matchesNamePattern :: "string \<Rightarrow> bool" where
  "matchesNamePattern s = (s \<noteq> [] \<and> set s \<subseteq> nameChars)"

subsection \<open>Data\<close>

text \<open>
  Modelled from the spec: package \<^verbatim>\<open>lib\<close> (Action, IPType, IgnoreIPOption, the removal
  mode, Entry and Container) is imported by the converter but is not among the sources.
  Action and IPType are string types in Go; any value other than the named constants
  (the empty string of an unset field included) is the third constructor. \<open>IgnoreNone\<close> is
  the zero value of the option, which the converter passes when no family is selected.
\<close>

datatype Action = ActionAdd | ActionRemove | ActionOther string

datatype IPType = IPv4 | IPv6 | IPTypeOther string

datatype IgnoreIPOption = IgnoreIPv4 | IgnoreIPv6 | IgnoreNone

datatype CaseRemove = CaseRemovePrefix | CaseRemoveEntry

text \<open>
  The errors of the converter. The first five carry the type tag and the action that the
  message prints. \<open>External\<close> wraps an error that comes from outside the converter (JSON
  decoding, the file system, HTTP, Entry.AddPrefix, Container.Add and Container.Remove).
\<close>

datatype error =
    MissingInputDirOrName string Action
  | MissingUriOrIPOrCIDR string Action
  | InputDirNotAllowed string Action
  | MissingArgument string Action
  | NoEntryGenerated string Action
  | ErrUnknownAction
  | BadFilename string
  | DuplicatedList string
  | HttpStatus string int
  | External string

text \<open>
  A reader as \<^verbatim>\<open>bufio.Scanner\<close> presents it: the lines that Scan yields, and the error that
  Err reports after the last of them.
\<close>

type_synonym reader = "string list \<times> string option"

text \<open>One call of the function given to \<^verbatim>\<open>filepath.Walk\<close>: path, info.IsDir(), err.\<close>

datatype visit = Visit string bool "string option"

text \<open>The anonymous struct that newTextIn decodes the JSON into (lines 32 to 42).\<close>

record tmp =
  tmp_Name :: string
  tmp_URI :: string
  tmp_IPOrCIDR :: "string list"
  tmp_InputDir :: string
  tmp_Want :: "string list"
  tmp_OnlyIPType :: IPType
  tmp_RemovePrefixesInLine :: "string list"
  tmp_RemoveSuffixesInLine :: "string list"

definition zeroTmp :: tmp where
  "zeroTmp = \<lparr>tmp_Name = [], tmp_URI = [], tmp_IPOrCIDR = [], tmp_InputDir = [],
     tmp_Want = [], tmp_OnlyIPType = IPTypeOther [],
     tmp_RemovePrefixesInLine = [], tmp_RemoveSuffixesInLine = []\<rparr>"

text \<open>The struct textIn (lines 85 to 98). Want is a map to bool that only ever holds true.\<close>

record textIn =
  Type :: string
  Action :: Action
  Description :: string
  Name :: string
  URI :: string
  IPOrCIDR :: "string list"
  InputDir :: string
  Want :: "string set"
  OnlyIPType :: IPType
  RemovePrefixesInLine :: "string list"
  RemoveSuffixesInLine :: "string list"

text \<open>
  Everything outside the converter, as parameters: the Unicode-aware string functions,
  JSON decoding into the zero-valued struct, the file system, HTTP, the operations of
  Entry (type \<open>'e\<close>) and Container (type \<open>'c\<close>), and the choices that Go makes when it
  ranges over a map (its iteration order is not specified).
\<close>

record ('e, 'c) env =
  ToUpper :: "string \<Rightarrow> string"
  ToLower :: "string \<Rightarrow> string"
  TrimSpace :: "string \<Rightarrow> string"
  Unmarshal :: "string \<Rightarrow> string + tmp"
  Open :: "string \<Rightarrow> string + reader"
  HttpGet :: "string \<Rightarrow> string + (int \<times> reader)"
  Walk :: "string \<Rightarrow> visit list"
  NewEntry :: "string \<Rightarrow> 'e"
  AddPrefix :: "'e \<Rightarrow> string \<Rightarrow> string + 'e"
  Add :: "'c \<Rightarrow> 'e \<Rightarrow> IgnoreIPOption \<Rightarrow> string + 'c"
  Remove :: "'c \<Rightarrow> 'e \<Rightarrow> CaseRemove \<Rightarrow> IgnoreIPOption \<Rightarrow> string + 'c"
  Sched :: "nat list"

definition typeTextIn :: string where
  "typeTextIn = ''text''"

definition descTextIn :: string where
  "descTextIn = ''Convert plaintext IP and CIDR to other formats''"

subsection \<open>newTextIn (lines 31 to 83)\<close>

fun filterWant :: "('e, 'c) env \<Rightarrow> string list \<Rightarrow> string set \<Rightarrow> string set" where
  "filterWant env [] wantList = wantList"
| "filterWant env (want # rest) wantList =
     (let want' = ToUpper env (TrimSpace env want)
      in if want' \<noteq> [] then filterWant env rest (insert want' wantList)
         else filterWant env rest wantList)"

definition makeTextIn :: "('e, 'c) env \<Rightarrow> Action \<Rightarrow> tmp \<Rightarrow> textIn" where
  "makeTextIn env action t =
     \<lparr>Type = typeTextIn, Action = action, Description = descTextIn,
      Name = tmp_Name t, URI = tmp_URI t, IPOrCIDR = tmp_IPOrCIDR t,
      InputDir = tmp_InputDir t, Want = filterWant env (tmp_Want t) {},
      OnlyIPType = tmp_OnlyIPType t,
      RemovePrefixesInLine = tmp_RemovePrefixesInLine t,
      RemoveSuffixesInLine = tmp_RemoveSuffixesInLine t\<rparr>"

definition newTextIn :: "('e, 'c) env \<Rightarrow> Action \<Rightarrow> string \<Rightarrow> error + textIn" where
  "newTextIn env action data =
     (case (if data \<noteq> [] then Unmarshal env data else Inr zeroTmp) of
        Inl msg \<Rightarrow> Inl (External msg)
      | Inr t \<Rightarrow>
          if tmp_InputDir t = [] then
            if tmp_Name t = [] then Inl (MissingInputDirOrName typeTextIn action)
            else if tmp_URI t = [] \<and> tmp_IPOrCIDR t = []
              then Inl (MissingUriOrIPOrCIDR typeTextIn action)
            else Inr (makeTextIn env action t)
          else if tmp_Name t \<noteq> [] \<or> tmp_URI t \<noteq> [] \<or> tmp_IPOrCIDR t \<noteq> []
            then Inl (InputDirNotAllowed typeTextIn action)
          else Inr (makeTextIn env action t))"

subsection \<open>scanFile (lines 264 to 298)\<close>

fun removePrefixes :: "('e, 'c) env \<Rightarrow> string \<Rightarrow> string list \<Rightarrow> string" where
  "removePrefixes env line [] = line"
| "removePrefixes env line (pre # rest) =
     removePrefixes env
       (TrimSpace env (TrimPrefix line (ToLower env (TrimSpace env pre)))) rest"

fun removeSuffixes :: "('e, 'c) env \<Rightarrow> string \<Rightarrow> string list \<Rightarrow> string" where
  "removeSuffixes env line [] = line"
| "removeSuffixes env line (suf # rest) =
     removeSuffixes env
       (TrimSpace env (TrimSuffix line (ToLower env (TrimSpace env suf)))) rest"

text \<open>
  The body of the loop up to the call of AddPrefix: \<open>None\<close> when the line is skipped by
  one of the two \<^verbatim>\<open>continue\<close> statements, otherwise the text given to AddPrefix.
\<close>

definition normalizeLine :: "('e, 'c) env \<Rightarrow> textIn \<Rightarrow> string \<Rightarrow> string option" where
  "normalizeLine env t line0 =
     (let line1 = TrimSpace env (stripComments line0)
      in if line1 = [] then None
         else let line2 = ToLower env line1;
                  line3 = removePrefixes env line2 (RemovePrefixesInLine t);
                  line4 = removeSuffixes env line3 (RemoveSuffixesInLine t);
                  line5 = TrimSpace env line4
              in if line5 = [] then None else Some line5)"

fun scanLines :: "('e, 'c) env \<Rightarrow> textIn \<Rightarrow> string list \<Rightarrow> 'e \<Rightarrow> error + 'e" where
  "scanLines env t [] entry = Inr entry"
| "scanLines env t (line # rest) entry =
     (case normalizeLine env t line of
        None \<Rightarrow> scanLines env t rest entry
      | Some text \<Rightarrow>
          (case AddPrefix env entry text of
             Inl msg \<Rightarrow> Inl (External msg)
           | Inr entry' \<Rightarrow> scanLines env t rest entry'))"

definition scanFile :: "('e, 'c) env \<Rightarrow> textIn \<Rightarrow> reader \<Rightarrow> 'e \<Rightarrow> error + 'e" where
  "scanFile env t rd entry =
     (case scanLines env t (fst rd) entry of
        Inl err \<Rightarrow> Inl err
      | Inr entry' \<Rightarrow>
          (case snd rd of Some msg \<Rightarrow> Inl (External msg) | None \<Rightarrow> Inr entry'))"

subsection \<open>walkLocalFile, walkDir, walkRemoteFile, appendIPOrCIDR (lines 174 to 317)\<close>

text \<open>
  The map \<^verbatim>\<open>entries\<close> is an association list with one pair for each key: a lookup is
  \<^const>\<open>map_of\<close>, an assignment is \<^const>\<open>AList.update\<close>, its length is zero when the list
  is empty.
\<close>

type_synonym 'e entries = "(string \<times> 'e) list"

text \<open>Lines 194 to 213 of walkLocalFile: the name of the entry, or the file-name error.\<close>

definition entryNameOf :: "('e, 'c) env \<Rightarrow> string \<Rightarrow> string \<Rightarrow> error + string" where
  "entryNameOf env path name0 =
     (let name = TrimSpace env name0
      in if name \<noteq> [] then Inr (ToUpper env name)
         else let entryName = Base path
              in if \<not> matchesNamePattern entryName then Inl (BadFilename entryName)
                 else (case LastIndex entryName ''.'' of
                         Some dotIndex \<Rightarrow>
                           if 0 < dotIndex then Inr (ToUpper env (take dotIndex entryName))
                           else Inr (ToUpper env entryName)
                       | None \<Rightarrow> Inr (ToUpper env entryName)))"

definition walkLocalFile ::
  "('e, 'c) env \<Rightarrow> textIn \<Rightarrow> string \<Rightarrow> string \<Rightarrow> 'e entries \<Rightarrow> error + 'e entries" where
  "walkLocalFile env t path name entries =
     (case entryNameOf env path name of
        Inl err \<Rightarrow> Inl err
      | Inr entryName \<Rightarrow>
          if Want t \<noteq> {} \<and> entryName \<notin> Want t then Inr entries
          else if map_of entries entryName \<noteq> None then Inl (DuplicatedList entryName)
          else (case Open env path of
                  Inl msg \<Rightarrow> Inl (External msg)
                | Inr file \<Rightarrow>
                    (case scanFile env t file (NewEntry env entryName) of
                       Inl err \<Rightarrow> Inl err
                     | Inr entry \<Rightarrow> Inr (AList.update entryName entry entries))))"

text \<open>
  walkDir: \<^verbatim>\<open>filepath.Walk\<close> calls the function once for each visit, in order, and stops
  at the first error the function returns.
\<close>

fun walkVisits ::
  "('e, 'c) env \<Rightarrow> textIn \<Rightarrow> visit list \<Rightarrow> 'e entries \<Rightarrow> error + 'e entries" where
  "walkVisits env t [] entries = Inr entries"
| "walkVisits env t (Visit path isDir werr # rest) entries =
     (case werr of
        Some msg \<Rightarrow> Inl (External msg)
      | None \<Rightarrow>
          if isDir then walkVisits env t rest entries
          else (case walkLocalFile env t path [] entries of
                  Inl err \<Rightarrow> Inl err
                | Inr entries' \<Rightarrow> walkVisits env t rest entries'))"

definition walkDir ::
  "('e, 'c) env \<Rightarrow> textIn \<Rightarrow> string \<Rightarrow> 'e entries \<Rightarrow> error + 'e entries" where
  "walkDir env t dir entries = walkVisits env t (Walk env dir) entries"

definition walkRemoteFile ::
  "('e, 'c) env \<Rightarrow> textIn \<Rightarrow> string \<Rightarrow> string \<Rightarrow> 'e entries \<Rightarrow> error + 'e entries" where
  "walkRemoteFile env t url name0 entries =
     (case HttpGet env url of
        Inl msg \<Rightarrow> Inl (External msg)
      | Inr (statusCode, body) \<Rightarrow>
          if statusCode \<noteq> 200 then Inl (HttpStatus url statusCode)
          else let name = ToUpper env name0
               in if Want t \<noteq> {} \<and> name \<notin> Want t then Inr entries
                  else (case scanFile env t body (NewEntry env name) of
                          Inl err \<Rightarrow> Inl err
                        | Inr entry \<Rightarrow> Inr (AList.update name entry entries)))"

fun addPrefixes :: "('e, 'c) env \<Rightarrow> 'e \<Rightarrow> string list \<Rightarrow> error + 'e" where
  "addPrefixes env entry [] = Inr entry"
| "addPrefixes env entry (cidr # rest) =
     (case AddPrefix env entry (TrimSpace env cidr) of
        Inl msg \<Rightarrow> Inl (External msg)
      | Inr entry' \<Rightarrow> addPrefixes env entry' rest)"

definition appendIPOrCIDR ::
  "('e, 'c) env \<Rightarrow> textIn \<Rightarrow> string list \<Rightarrow> string \<Rightarrow> 'e entries \<Rightarrow> error + 'e entries" where
  "appendIPOrCIDR env t ipOrCIDR name0 entries =
     (let name = ToUpper env name0;
          entry = (case map_of entries name of Some found \<Rightarrow> found | None \<Rightarrow> NewEntry env name)
      in case addPrefixes env entry ipOrCIDR of
           Inl err \<Rightarrow> Inl err
         | Inr entry' \<Rightarrow> Inr (AList.update name entry' entries))"

subsection \<open>Input (lines 112 to 172)\<close>

text \<open>The uri step of the second case of the switch (lines 121 to 126).\<close>

definition uriStep :: "('e, 'c) env \<Rightarrow> textIn \<Rightarrow> error + 'e entries" where
  "uriStep env t =
     (if HasPrefix (ToLower env (URI t)) ''http://''
         \<or> HasPrefix (ToLower env (URI t)) ''https://''
      then walkRemoteFile env t (URI t) (Name t) []
      else walkLocalFile env t (URI t) (Name t) [])"

text \<open>The switch of lines 116 to 142, from the empty map: the entries read, or the error.\<close>

definition readSources :: "('e, 'c) env \<Rightarrow> textIn \<Rightarrow> error + 'e entries" where
  "readSources env t =
     (if InputDir t \<noteq> [] then walkDir env t (InputDir t) []
      else if Name t \<noteq> [] \<and> URI t \<noteq> [] then
        (case uriStep env t of
           Inl err \<Rightarrow> Inl err
         | Inr entries \<Rightarrow> appendIPOrCIDR env t (IPOrCIDR t) (Name t) entries)
      else if Name t \<noteq> [] \<and> IPOrCIDR t \<noteq> [] then
        appendIPOrCIDR env t (IPOrCIDR t) (Name t) []
      else Inl (MissingArgument (Type t) (Action t)))"

text \<open>Lines 144 to 150.\<close>

definition ignoreIPTypeOf :: "IPType \<Rightarrow> IgnoreIPOption" where
  "ignoreIPTypeOf onlyIPType =
     (case onlyIPType of IPv4 \<Rightarrow> IgnoreIPv6 | IPv6 \<Rightarrow> IgnoreIPv4 | IPTypeOther _ \<Rightarrow> IgnoreNone)"

text \<open>
  The order in which \<^verbatim>\<open>range\<close> visits a map: each number of the schedule picks the next
  element among those left; when the schedule is used up the rest follows as stored.
  Every order of the elements is the result of some schedule.
\<close>

fun rangeOrder :: "nat list \<Rightarrow> 'a list \<Rightarrow> 'a list" where
  "rangeOrder [] xs = xs"
| "rangeOrder (k # ks) xs =
     (if xs = [] then []
      else let i = k mod length xs
           in xs ! i # rangeOrder ks (take i xs @ drop (Suc i) xs))"

text \<open>The loop of lines 156 to 169.\<close>

fun applyEntries ::
  "('e, 'c) env \<Rightarrow> textIn \<Rightarrow> IgnoreIPOption \<Rightarrow> 'e entries \<Rightarrow> 'c \<Rightarrow> error + 'c" where
  "applyEntries env t ignoreIPType [] container = Inr container"
| "applyEntries env t ignoreIPType ((name, entry) # rest) container =
     (case Action t of
        ActionAdd \<Rightarrow>
          (case Add env container entry ignoreIPType of
             Inl msg \<Rightarrow> Inl (External msg)
           | Inr container' \<Rightarrow> applyEntries env t ignoreIPType rest container')
      | ActionRemove \<Rightarrow>
          (case Remove env container entry CaseRemovePrefix ignoreIPType of
             Inl msg \<Rightarrow> Inl (External msg)
           | Inr container' \<Rightarrow> applyEntries env t ignoreIPType rest container')
      | ActionOther _ \<Rightarrow> Inl ErrUnknownAction)"

text \<open>
  Input returns the container or the error. Container.Add and Container.Remove update the
  container in place; when Input returns an error the caller gets no container back.
\<close>

definition Input :: "('e, 'c) env \<Rightarrow> textIn \<Rightarrow> 'c \<Rightarrow> error + 'c" where
  "Input env t container =
     (case readSources env t of
        Inl err \<Rightarrow> Inl err
      | Inr entries \<Rightarrow>
          let ignoreIPType = ignoreIPTypeOf (OnlyIPType t)
          in if entries = [] then Inl (NoEntryGenerated (Type t) (Action t))
             else applyEntries env t ignoreIPType (rangeOrder (Sched env) entries) container)"

subsection \<open>A concrete environment for the examples\<close>

text \<open>
  The examples below run the converter in a small world: ASCII case folding and trimming
  (what the Go functions compute on ASCII text), files, directories and URLs given as
  tables, an Entry that records its name and the texts it accepted (a text is accepted when
  it is made of hexadecimal digits, dots, colons and slashes), and a Container that records
  the calls made on it.
\<close>

definition asciiToUpper :: "string \<Rightarrow> string" where
  "asciiToUpper =
     map (\<lambda>c. case map_of (zip ''abcdefghijklmnopqrstuvwxyz'' ''ABCDEFGHIJKLMNOPQRSTUVWXYZ'') c of
                 Some u \<Rightarrow> u | None \<Rightarrow> c)"

definition asciiToLower :: "string \<Rightarrow> string" where
  "asciiToLower =
     map (\<lambda>c. case map_of (zip ''ABCDEFGHIJKLMNOPQRSTUVWXYZ'' ''abcdefghijklmnopqrstuvwxyz'') c of
                 Some l \<Rightarrow> l | None \<Rightarrow> c)"

definition asciiSpace :: "char \<Rightarrow> bool" where
  "asciiSpace c = (c \<in> set [CHR '' '', CHR 0x09, CHR 0x0A, CHR 0x0B, CHR 0x0C, CHR 0x0D])"

definition asciiTrimSpace :: "string \<Rightarrow> string" where
  "asciiTrimSpace s = rev (dropWhile asciiSpace (rev (dropWhile asciiSpace s)))"

type_synonym exEntry = "string \<times> string list"

datatype exCall = AddCall exEntry IgnoreIPOption | RemoveCall exEntry CaseRemove IgnoreIPOption

definition exAccepts :: "string \<Rightarrow> bool" where
  "exAccepts s = (s \<noteq> [] \<and> set s \<subseteq> set ''0123456789abcdef.:/'')"

definition exAddPrefix :: "exEntry \<Rightarrow> string \<Rightarrow> string + exEntry" where
  "exAddPrefix e s = (if exAccepts s then Inr (fst e, snd e @ [s]) else Inl (''invalid: '' @ s))"

definition exLookup :: "(string \<times> 'a) list \<Rightarrow> string \<Rightarrow> string + 'a" where
  "exLookup table k = (case map_of table k of Some v \<Rightarrow> Inr v | None \<Rightarrow> Inl (''not found: '' @ k))"

definition exEnv ::
  "(string \<times> reader) list \<Rightarrow> (string \<times> visit list) list \<Rightarrow> (string \<times> int \<times> reader) list
     \<Rightarrow> nat list \<Rightarrow> (exEntry, exCall list) env" where
  "exEnv files dirs urls sched =
     \<lparr>ToUpper = asciiToUpper, ToLower = asciiToLower, TrimSpace = asciiTrimSpace,
      Unmarshal = (\<lambda>data. Inl ''no decoder''),
      Open = exLookup files,
      HttpGet = exLookup urls,
      Walk = (\<lambda>dir. case map_of dirs dir of
                       Some visits \<Rightarrow> visits
                     | None \<Rightarrow> [Visit dir False (Some ''no such directory'')]),
      NewEntry = (\<lambda>name. (name, [])),
      AddPrefix = exAddPrefix,
      Add = (\<lambda>container entry ignore. Inr (container @ [AddCall entry ignore])),
      Remove = (\<lambda>container entry mode ignore. Inr (container @ [RemoveCall entry mode ignore])),
      Sched = sched\<rparr>"

definition exTextIn :: "Action \<Rightarrow> tmp \<Rightarrow> textIn" where
  "exTextIn action t = makeTextIn (exEnv [] [] [] []) action t"

subsection \<open>The source-mode rules, in the specification's words\<close>

text \<open>
  A decoded configuration violates the rules when it has neither inputDir nor name; or no
  inputDir and a name, but neither uri nor ipOrCIDR; or inputDir together with any of name,
  uri and ipOrCIDR.
\<close>

definition sourceModeViolation :: "tmp \<Rightarrow> bool" where
  "sourceModeViolation t =
     ((tmp_InputDir t = [] \<and> tmp_Name t = [])
      \<or> (tmp_InputDir t = [] \<and> tmp_Name t \<noteq> [] \<and> tmp_URI t = [] \<and> tmp_IPOrCIDR t = [])
      \<or> (tmp_InputDir t \<noteq> []
          \<and> (tmp_Name t \<noteq> [] \<or> tmp_URI t \<noteq> [] \<or> tmp_IPOrCIDR t \<noteq> [])))"

definition isConfigError :: "error \<Rightarrow> bool" where
  "isConfigError err =
     (case err of
        MissingInputDirOrName _ _ \<Rightarrow> True
      | MissingUriOrIPOrCIDR _ _ \<Rightarrow> True
      | InputDirNotAllowed _ _ \<Rightarrow> True
      | _ \<Rightarrow> False)"

definition exConfig :: tmp where
  "exConfig = zeroTmp\<lparr>tmp_Name := ''private'', tmp_IPOrCIDR := [''10.0.0.0/8''],
                tmp_Want := ['' cn '', '' '']\<rparr>"

subsection \<open>Applying a list of entries, in the specification's words\<close>

text \<open>
  Each entry of the list is given to the operation in turn, on the container that the
  previous call returned; the first error ends the run.
\<close>

fun applyAll :: "('c \<Rightarrow> 'e \<Rightarrow> string + 'c) \<Rightarrow> 'e list \<Rightarrow> 'c \<Rightarrow> error + 'c" where
  "applyAll f [] container = Inr container"
| "applyAll f (entry # rest) container =
     (case f container entry of
        Inl msg \<Rightarrow> Inl (External msg)
      | Inr container' \<Rightarrow> applyAll f rest container')"

subsection \<open>Visits that leave no entry, and the errors of reading\<close>

text \<open>
  A visit is skipped when it reports no error and is a directory, or a file whose name
  gives a code outside the want list.
\<close>

definition skippedVisit :: "('e, 'c) env \<Rightarrow> textIn \<Rightarrow> visit \<Rightarrow> bool" where
  "skippedVisit env t v =
     (case v of
        Visit path isDir werr \<Rightarrow>
          werr = None
          \<and> (isDir \<or> (case entryNameOf env path [] of
                         Inr code \<Rightarrow> code \<notin> Want t
                       | Inl err \<Rightarrow> False)))"

definition sourceError :: "error \<Rightarrow> bool" where
  "sourceError err =
     (case err of
        External _ \<Rightarrow> True
      | BadFilename _ \<Rightarrow> True
      | DuplicatedList _ \<Rightarrow> True
      | HttpStatus _ _ \<Rightarrow> True
      | _ \<Rightarrow> False)"

subsection \<open>Example files, directories and configurations\<close>

definition exFiles :: "(string \<times> reader) list" where
  "exFiles =
     [(''data/AU.txt'', ([''2.0.0.0/8''], None)),
      (''data/cn.txt'', ([''1.0.0.0/8 # first'', '''', ''// nothing'', '' IP-CIDR,10.0.0.0/8,no-resolve''], None)),
      (''twice/CN.TXT'', ([''3.0.0.0/8''], None)),
      (''twice/cn.txt'', ([''1.0.0.0/8''], None)),
      (''data/bad.txt'', ([''4.0.0.0/8'', ''not an address'', ''5.0.0.0/8''], None))]"

definition exDirs :: "(string \<times> visit list) list" where
  "exDirs =
     [(''data'', [Visit ''data'' True None, Visit ''data/AU.txt'' False None, Visit ''data/cn.txt'' False None]),
      (''twice'', [Visit ''twice'' True None, Visit ''twice/CN.TXT'' False None, Visit ''twice/cn.txt'' False None]),
      (''odd'', [Visit ''odd'' True None, Visit ''odd/a b.txt'' False None])]"

definition exUrls :: "(string \<times> int \<times> reader) list" where
  "exUrls =
     [(''https://example.org/cn.txt'', (200, ([''6.0.0.0/8''], None))),
      (''https://example.org/gone.txt'', (404, ([], None)))]"

definition exWorld :: "nat list \<Rightarrow> (exEntry, exCall list) env" where
  "exWorld sched = exEnv exFiles exDirs exUrls sched"

definition exDirConfig :: tmp where
  "exDirConfig = zeroTmp\<lparr>tmp_InputDir := ''data'',
      tmp_RemovePrefixesInLine := ['' IP-CIDR, ''], tmp_RemoveSuffixesInLine := ['',no-resolve'']\<rparr>"

definition exUriConfig :: tmp where
  "exUriConfig = zeroTmp\<lparr>tmp_Name := ''cn'', tmp_URI := ''https://example.org/cn.txt'',
      tmp_Want := [''us'']\<rparr>"

definition exBlankWantConfig :: tmp where
  "exBlankWantConfig = exDirConfig\<lparr>tmp_Want := ['' '']\<rparr>"

definition exTwiceConfig :: tmp where
  "exTwiceConfig = zeroTmp\<lparr>tmp_InputDir := ''twice''\<rparr>"

definition exOddConfig :: tmp where
  "exOddConfig = zeroTmp\<lparr>tmp_InputDir := ''odd''\<rparr>"

subsection \<open>The treatment of a line, in the specification's words\<close>

text \<open>
  A configured value is trimmed and lower-cased; when the (lower-cased) line starts with
  it, or ends with it, it is removed; the line is trimmed again after each value. A line
  is cut at its first comment marker and trimmed; an empty line is skipped; otherwise it
  is folded to lower case, the prefix values and then the suffix values are removed in
  their order, and the result is skipped when it is empty.
\<close>

definition stripPrefixValue :: "('e, 'c) env \<Rightarrow> string \<Rightarrow> string \<Rightarrow> string" where
  "stripPrefixValue env line v =
     (let v' = ToLower env (TrimSpace env v)
      in TrimSpace env (if HasPrefix line v' then drop (length v') line else line))"

definition stripSuffixValue :: "('e, 'c) env \<Rightarrow> string \<Rightarrow> string \<Rightarrow> string" where
  "stripSuffixValue env line v =
     (let v' = ToLower env (TrimSpace env v)
      in TrimSpace env (if HasSuffix line v' then take (length line - length v') line else line))"

definition specNormalize :: "('e, 'c) env \<Rightarrow> textIn \<Rightarrow> string \<Rightarrow> string option" where
  "specNormalize env t raw =
     (let line = TrimSpace env (cutAtFirstMarker raw)
      in if line = [] then None
         else let stripped =
                    foldl (stripSuffixValue env)
                      (foldl (stripPrefixValue env) (ToLower env line) (RemovePrefixesInLine t))
                      (RemoveSuffixesInLine t);
                  result = TrimSpace env stripped
              in if result = [] then None else Some result)"

definition exBadConfig :: tmp where
  "exBadConfig = zeroTmp\<lparr>tmp_Name := ''bad'', tmp_URI := ''data/bad.txt''\<rparr>"

section \<open>Comment stripping\<close>

lemma fst_Cut_Nil: "sep \<noteq> [] \<Longrightarrow> fst (Cut [] sep) = []"
  by (simp add: Cut_def)

lemma fst_Cut_Cons:
  "sep \<noteq> [] \<Longrightarrow>
     fst (Cut (c # cs) sep) = (if HasPrefix (c # cs) sep then [] else c # fst (Cut cs sep))"
  by (simp add: Cut_def split: option.splits)

lemma fst_Cut_take: "sep \<noteq> [] \<Longrightarrow> \<exists>n. fst (Cut s sep) = take n s"
proof (induction s)
  case Nil
  then show ?case by (simp add: fst_Cut_Nil)
next
  case (Cons c cs)
  then obtain n where n: "fst (Cut cs sep) = take n cs" by auto
  show ?case
  proof (cases "HasPrefix (c # cs) sep")
    case True
    with Cons.prems have "fst (Cut (c # cs) sep) = take 0 (c # cs)"
      by (simp add: fst_Cut_Cons)
    then show ?thesis by blast
  next
    case False
    with Cons.prems n have "fst (Cut (c # cs) sep) = take (Suc n) (c # cs)"
      by (simp add: fst_Cut_Cons)
    then show ?thesis by blast
  qed
qed

lemma HasPrefix_take2: "HasPrefix (c # take n cs) [a, b] \<Longrightarrow> HasPrefix (c # cs) [a, b]"
  by (cases cs; cases n) (auto simp: HasPrefix_def)

lemma HasPrefix_hash: "HasPrefix (c # cs) ''#'' \<longleftrightarrow> c = CHR ''#''"
  by (auto simp: HasPrefix_def)

lemma HasPrefix_two: "HasPrefix (c # cs) [a, b] \<longleftrightarrow> c = a \<and> (\<exists>cs'. cs = b # cs')"
  by (cases cs) (auto simp: HasPrefix_def)

lemma stripComments_fst:
  "stripComments s = fst (Cut (fst (Cut (fst (Cut s ''#'')) ''//'')) ''/*'')"
  by (simp add: stripComments_def split: prod.splits)

lemma stripComments_Nil: "stripComments [] = []"
  by (simp add: stripComments_fst fst_Cut_Nil)

text \<open>
  The three cuts, one character at a time. A cut never leaves a character after the place
  where it cuts, so a marker that the later cuts see at the head of the line was there
  before the earlier cuts.
\<close>

lemma stripComments_Cons:
  "stripComments (c # cs) = (if markerAt (c # cs) then [] else c # stripComments cs)"
proof -
  let ?b1 = "fst (Cut cs ''#'')"
  let ?b2 = "fst (Cut ?b1 ''//'')"
  obtain n1 where n1: "?b1 = take n1 cs"
    using fst_Cut_take[of "''#''" cs] by auto
  obtain n2 where n2: "?b2 = take n2 ?b1"
    using fst_Cut_take[of "''//''" ?b1] by auto
  have b2: "?b2 = take (min n2 n1) cs" using n1 n2 by simp
  consider (hash) "c = CHR ''#''"
    | (slashes) "c \<noteq> CHR ''#''" "HasPrefix (c # cs) ''//''"
    | (star) "c \<noteq> CHR ''#''" "\<not> HasPrefix (c # cs) ''//''" "HasPrefix (c # cs) ''/*''"
    | (none) "c \<noteq> CHR ''#''" "\<not> HasPrefix (c # cs) ''//''" "\<not> HasPrefix (c # cs) ''/*''"
    by blast
  then show ?thesis
  proof cases
    case hash
    then show ?thesis
      by (simp add: stripComments_fst markerAt_def fst_Cut_Cons fst_Cut_Nil HasPrefix_hash)
  next
    case slashes
    then obtain cs' where cs: "c = CHR ''/''" "cs = CHR ''/'' # cs'"
      by (auto simp: HasPrefix_two)
    have "fst (Cut (c # cs) ''#'') = c # CHR ''/'' # fst (Cut cs' ''#'')"
      using cs by (simp add: fst_Cut_Cons HasPrefix_hash)
    then have "fst (Cut (fst (Cut (c # cs) ''#'')) ''//'') = []"
      using cs by (simp add: fst_Cut_Cons HasPrefix_two)
    then show ?thesis using slashes
      by (simp add: stripComments_fst markerAt_def fst_Cut_Nil)
  next
    case star
    then obtain cs' where cs: "c = CHR ''/''" "cs = CHR ''*'' # cs'"
      by (auto simp: HasPrefix_two)
    have "fst (Cut (c # cs) ''#'') = c # CHR ''*'' # fst (Cut cs' ''#'')"
      using cs by (simp add: fst_Cut_Cons HasPrefix_hash)
    then have "fst (Cut (fst (Cut (c # cs) ''#'')) ''//'')
                 = c # CHR ''*'' # fst (Cut (fst (Cut cs' ''#'')) ''//'')"
      using cs by (simp add: fst_Cut_Cons HasPrefix_two)
    then show ?thesis using star cs
      by (simp add: stripComments_fst markerAt_def fst_Cut_Cons HasPrefix_two)
  next
    case none
    have s1: "fst (Cut (c # cs) ''#'') = c # ?b1"
      using none by (simp add: fst_Cut_Cons HasPrefix_hash)
    have "\<not> HasPrefix (c # ?b1) ''//''"
      using none(2) HasPrefix_take2[of c n1 cs] n1 by auto
    then have s2: "fst (Cut (c # ?b1) ''//'') = c # ?b2"
      by (simp add: fst_Cut_Cons)
    have "\<not> HasPrefix (c # ?b2) ''/*''"
      using none(3) HasPrefix_take2[of c "min n2 n1" cs] b2 by auto
    then have s3: "fst (Cut (c # ?b2) ''/*'') = c # fst (Cut ?b2 ''/*'')"
      by (simp add: fst_Cut_Cons)
    have "\<not> markerAt (c # cs)"
      using none by (simp add: markerAt_def HasPrefix_hash)
    then show ?thesis
      by (simp add: stripComments_fst s1 s2 s3)
  qed
qed

lemma stripComments_cutAtFirstMarker: "stripComments s = cutAtFirstMarker s"
  by (induction s)
    (auto simp: stripComments_Nil stripComments_Cons cutAtFirstMarker_def split: option.splits)

lemma firstMarker_Some:
  "firstMarker s = Some i \<Longrightarrow>
     i < length s \<and> markerAt (drop i s) \<and> (\<forall>j<i. \<not> markerAt (drop j s))"
proof (induction s arbitrary: i)
  case Nil
  then show ?case by simp
next
  case (Cons c cs)
  show ?case
  proof (cases "markerAt (c # cs)")
    case True
    with Cons.prems show ?thesis by simp
  next
    case False
    with Cons.prems obtain k where k: "firstMarker cs = Some k" "i = Suc k" by auto
    from Cons.IH[OF k(1)] False k(2) show ?thesis
      by (auto simp: less_Suc_eq_0_disj)
  qed
qed

lemma firstMarker_None: "firstMarker s = None \<Longrightarrow> \<not> markerAt (drop j s)"
proof (induction s arbitrary: j)
  case Nil
  then show ?case by (simp add: markerAt_def HasPrefix_def)
next
  case (Cons c cs)
  then show ?case by (cases j) (auto split: if_splits)
qed

text \<open>
  Claim C3. For every line, the three cuts of scanFile (at \<^verbatim>\<open>#\<close>, then at \<^verbatim>\<open>//\<close>, then at
  \<^verbatim>\<open>/*\<close>) keep exactly the part of the line before the earliest position at which any of
  the three markers occurs, and the whole line when no marker occurs anywhere.
\<close>

theorem C3_stripComments_earliest_marker:
  "(case firstMarker line of
      Some i \<Rightarrow> stripComments line = take i line \<and> i < length line
                 \<and> markerAt (drop i line) \<and> (\<forall>j<i. \<not> markerAt (drop j line))
    | None \<Rightarrow> stripComments line = line \<and> (\<forall>j. \<not> markerAt (drop j line)))"
proof (cases "firstMarker line")
  case None
  then show ?thesis
    using firstMarker_None[of line]
    by (simp add: stripComments_cutAtFirstMarker cutAtFirstMarker_def)
next
  case (Some i)
  then show ?thesis
    using firstMarker_Some[of line i]
    by (simp add: stripComments_cutAtFirstMarker cutAtFirstMarker_def)
qed

theorem C3_witness:
  "firstMarker ''1.0.0.0/8 /* a // b # c'' = Some 10
   \<and> stripComments ''1.0.0.0/8 /* a // b # c'' = ''1.0.0.0/8 ''
   \<and> markerAt (drop 10 ''1.0.0.0/8 /* a // b # c'')
   \<and> \<not> markerAt (drop 9 ''1.0.0.0/8 /* a // b # c'')"
proof -
  let ?line = "''1.0.0.0/8 /* a // b # c''"
  have fm: "firstMarker ?line = Some 10"
    by (simp add: markerAt_def HasPrefix_def)
  have all: "stripComments ?line = take 10 ?line \<and> markerAt (drop 10 ?line)
        \<and> (\<forall>j<10. \<not> markerAt (drop j ?line))"
    using C3_stripComments_earliest_marker[of ?line]
    unfolding fm by simp
  from all have kept: "stripComments ?line = take 10 ?line" by blast
  from all have here: "markerAt (drop 10 ?line)" by blast
  from all have "(9::nat) < 10 \<longrightarrow> \<not> markerAt (drop 9 ?line)" by blast
  then have before: "\<not> markerAt (drop 9 ?line)" by simp
  from kept have "stripComments ?line = ''1.0.0.0/8 ''" by simp
  with fm here before show ?thesis by blast
qed

section \<open>Construction\<close>

lemma filterWant_eq:
  "filterWant env ws acc =
     acc \<union> {w'. \<exists>w\<in>set ws. w' = ToUpper env (TrimSpace env w) \<and> w' \<noteq> []}"
  by (induction ws arbitrary: acc) (auto simp: Let_def)

lemma filterWant_io:
  "filterWant (env\<lparr>Open := opn, HttpGet := get, Walk := wlk\<rparr>) ws acc = filterWant env ws acc"
  by (induction ws arbitrary: acc) (simp_all add: Let_def)

lemma makeTextIn_io:
  "makeTextIn (env\<lparr>Open := opn, HttpGet := get, Walk := wlk\<rparr>) action t = makeTextIn env action t"
  by (simp add: makeTextIn_def filterWant_io)

lemma newTextIn_io:
  "newTextIn (env\<lparr>Open := opn, HttpGet := get, Walk := wlk\<rparr>) action data = newTextIn env action data"
  by (simp add: newTextIn_def makeTextIn_io split: sum.splits)

text \<open>
  Claim C2. For a configuration that decodes, newTextIn fails with one of the three
  configuration errors exactly when the decoded configuration violates the source-mode
  rules, and otherwise returns a converter that carries the given action and the decoded
  fields (the want list trimmed, upper-cased and without empty codes). The result does
  not depend on the file system or on HTTP: no I/O takes part in it.
\<close>

theorem C2_newTextIn_source_mode_rules:
  assumes "(if data \<noteq> [] then Unmarshal env data else Inr zeroTmp) = Inr t"
  shows "(sourceModeViolation t \<longrightarrow>
            (\<exists>err. newTextIn env action data = Inl err \<and> isConfigError err))
       \<and> (\<not> sourceModeViolation t \<longrightarrow>
            (\<exists>conv. newTextIn env action data = Inr conv
               \<and> Type conv = typeTextIn \<and> Action conv = action
               \<and> Name conv = tmp_Name t \<and> URI conv = tmp_URI t
               \<and> IPOrCIDR conv = tmp_IPOrCIDR t \<and> InputDir conv = tmp_InputDir t
               \<and> OnlyIPType conv = tmp_OnlyIPType t
               \<and> RemovePrefixesInLine conv = tmp_RemovePrefixesInLine t
               \<and> RemoveSuffixesInLine conv = tmp_RemoveSuffixesInLine t
               \<and> Want conv = {w'. \<exists>w\<in>set (tmp_Want t).
                                  w' = ToUpper env (TrimSpace env w) \<and> w' \<noteq> []}))
       \<and> newTextIn (env\<lparr>Open := opn, HttpGet := get, Walk := wlk\<rparr>) action data
           = newTextIn env action data"
proof -
  have dec: "newTextIn env action data =
      (if tmp_InputDir t = [] then
            if tmp_Name t = [] then Inl (MissingInputDirOrName typeTextIn action)
            else if tmp_URI t = [] \<and> tmp_IPOrCIDR t = []
              then Inl (MissingUriOrIPOrCIDR typeTextIn action)
            else Inr (makeTextIn env action t)
          else if tmp_Name t \<noteq> [] \<or> tmp_URI t \<noteq> [] \<or> tmp_IPOrCIDR t \<noteq> []
            then Inl (InputDirNotAllowed typeTextIn action)
          else Inr (makeTextIn env action t))"
    using assms unfolding newTextIn_def by simp
  have bad: "sourceModeViolation t \<longrightarrow>
            (\<exists>err. newTextIn env action data = Inl err \<and> isConfigError err)"
    unfolding dec by (auto simp: sourceModeViolation_def isConfigError_def)
  have ok: "\<not> sourceModeViolation t \<longrightarrow> newTextIn env action data = Inr (makeTextIn env action t)"
    unfolding dec by (auto simp: sourceModeViolation_def)
  have fields: "Type (makeTextIn env action t) = typeTextIn \<and> Action (makeTextIn env action t) = action
               \<and> Name (makeTextIn env action t) = tmp_Name t \<and> URI (makeTextIn env action t) = tmp_URI t
               \<and> IPOrCIDR (makeTextIn env action t) = tmp_IPOrCIDR t \<and> InputDir (makeTextIn env action t) = tmp_InputDir t
               \<and> OnlyIPType (makeTextIn env action t) = tmp_OnlyIPType t
               \<and> RemovePrefixesInLine (makeTextIn env action t) = tmp_RemovePrefixesInLine t
               \<and> RemoveSuffixesInLine (makeTextIn env action t) = tmp_RemoveSuffixesInLine t
               \<and> Want (makeTextIn env action t) = {w'. \<exists>w\<in>set (tmp_Want t).
                                  w' = ToUpper env (TrimSpace env w) \<and> w' \<noteq> []}"
    by (simp add: makeTextIn_def filterWant_eq)
  have good: "\<not> sourceModeViolation t \<longrightarrow>
            (\<exists>conv. newTextIn env action data = Inr conv
               \<and> Type conv = typeTextIn \<and> Action conv = action
               \<and> Name conv = tmp_Name t \<and> URI conv = tmp_URI t
               \<and> IPOrCIDR conv = tmp_IPOrCIDR t \<and> InputDir conv = tmp_InputDir t
               \<and> OnlyIPType conv = tmp_OnlyIPType t
               \<and> RemovePrefixesInLine conv = tmp_RemovePrefixesInLine t
               \<and> RemoveSuffixesInLine conv = tmp_RemoveSuffixesInLine t
               \<and> Want conv = {w'. \<exists>w\<in>set (tmp_Want t).
                                  w' = ToUpper env (TrimSpace env w) \<and> w' \<noteq> []})"
  proof
    assume "\<not> sourceModeViolation t"
    with ok have eq: "newTextIn env action data = Inr (makeTextIn env action t)"
      by (rule mp)
    show "\<exists>conv. newTextIn env action data = Inr conv
               \<and> Type conv = typeTextIn \<and> Action conv = action
               \<and> Name conv = tmp_Name t \<and> URI conv = tmp_URI t
               \<and> IPOrCIDR conv = tmp_IPOrCIDR t \<and> InputDir conv = tmp_InputDir t
               \<and> OnlyIPType conv = tmp_OnlyIPType t
               \<and> RemovePrefixesInLine conv = tmp_RemovePrefixesInLine t
               \<and> RemoveSuffixesInLine conv = tmp_RemoveSuffixesInLine t
               \<and> Want conv = {w'. \<exists>w\<in>set (tmp_Want t).
                                  w' = ToUpper env (TrimSpace env w) \<and> w' \<noteq> []}"
      using eq fields by (intro exI[of _ "makeTextIn env action t"] conjI) (elim conjE, assumption)+
  qed
  have io: "newTextIn (env\<lparr>Open := opn, HttpGet := get, Walk := wlk\<rparr>) action data
           = newTextIn env action data"
    by (rule newTextIn_io)
  from bad good io show ?thesis by (intro conjI)
qed

theorem C2_witness:
  "\<not> sourceModeViolation exConfig
   \<and> (\<exists>conv. newTextIn (exEnv [] [] [] []\<lparr>Unmarshal := \<lambda>data. Inr exConfig\<rparr>) ActionAdd ''{}'' = Inr conv
        \<and> Action conv = ActionAdd \<and> Name conv = ''private'' \<and> Want conv = {''CN''})
   \<and> sourceModeViolation (exConfig\<lparr>tmp_InputDir := ''data''\<rparr>)
   \<and> (\<exists>err. newTextIn (exEnv [] [] [] []\<lparr>Unmarshal := \<lambda>data. Inr (exConfig\<lparr>tmp_InputDir := ''data''\<rparr>)\<rparr>) ActionAdd ''{}'' = Inl err)"
proof -
  let ?env = "exEnv [] [] [] []\<lparr>Unmarshal := \<lambda>data. Inr exConfig\<rparr>"
  let ?env2 = "exEnv [] [] [] []\<lparr>Unmarshal := \<lambda>data. Inr (exConfig\<lparr>tmp_InputDir := ''data''\<rparr>)\<rparr>"
  have d: "(if ''{}'' \<noteq> [] then Unmarshal ?env ''{}'' else Inr zeroTmp) = Inr exConfig"
    by simp
  have d2: "(if ''{}'' \<noteq> [] then Unmarshal ?env2 ''{}'' else Inr zeroTmp) = Inr (exConfig\<lparr>tmp_InputDir := ''data''\<rparr>)"
    by simp
  have v: "\<not> sourceModeViolation exConfig"
    by (simp add: sourceModeViolation_def exConfig_def zeroTmp_def)
  have v2: "sourceModeViolation (exConfig\<lparr>tmp_InputDir := ''data''\<rparr>)"
    by (simp add: sourceModeViolation_def exConfig_def zeroTmp_def)
  have w: "{w'. \<exists>w\<in>set (tmp_Want exConfig). w' = ToUpper ?env (TrimSpace ?env w) \<and> w' \<noteq> []} = {''CN''}"
    by (auto simp: exConfig_def zeroTmp_def exEnv_def asciiToUpper_def asciiTrimSpace_def asciiSpace_def)
  have n: "tmp_Name exConfig = ''private''" by (simp add: exConfig_def)
  note rules = C2_newTextIn_source_mode_rules[OF d, of ActionAdd]
  from rules have "\<not> sourceModeViolation exConfig \<longrightarrow>
     (\<exists>conv. newTextIn ?env ActionAdd ''{}'' = Inr conv
               \<and> Type conv = typeTextIn \<and> Action conv = ActionAdd
               \<and> Name conv = tmp_Name exConfig \<and> URI conv = tmp_URI exConfig
               \<and> IPOrCIDR conv = tmp_IPOrCIDR exConfig \<and> InputDir conv = tmp_InputDir exConfig
               \<and> OnlyIPType conv = tmp_OnlyIPType exConfig
               \<and> RemovePrefixesInLine conv = tmp_RemovePrefixesInLine exConfig
               \<and> RemoveSuffixesInLine conv = tmp_RemoveSuffixesInLine exConfig
               \<and> Want conv = {w'. \<exists>w\<in>set (tmp_Want exConfig).
                                  w' = ToUpper ?env (TrimSpace ?env w) \<and> w' \<noteq> []})"
    by (rule conjunct1[OF conjunct2])
  with v obtain conv where conv: "newTextIn ?env ActionAdd ''{}'' = Inr conv"
      "Action conv = ActionAdd" "Name conv = tmp_Name exConfig"
      "Want conv = {w'. \<exists>w\<in>set (tmp_Want exConfig). w' = ToUpper ?env (TrimSpace ?env w) \<and> w' \<noteq> []}"
    by (elim impE exE conjE)
  from conv(4) have want: "Want conv = {''CN''}" by (simp only: w)
  from conv(3) have name: "Name conv = ''private''" by (simp only: n)
  from conv(1,2) name want have ok: "\<exists>conv. newTextIn ?env ActionAdd ''{}'' = Inr conv
        \<and> Action conv = ActionAdd \<and> Name conv = ''private'' \<and> Want conv = {''CN''}"
    by (intro exI[of _ conv] conjI)
  from C2_newTextIn_source_mode_rules[OF d2, of ActionAdd]
  have "sourceModeViolation (exConfig\<lparr>tmp_InputDir := ''data''\<rparr>) \<longrightarrow>
      (\<exists>err. newTextIn ?env2 ActionAdd ''{}'' = Inl err \<and> isConfigError err)"
    by (rule conjunct1)
  with v2 obtain err where "newTextIn ?env2 ActionAdd ''{}'' = Inl err"
    by (elim impE exE conjE)
  then have bad: "\<exists>err. newTextIn ?env2 ActionAdd ''{}'' = Inl err" by (rule exI)
  from v ok v2 bad show ?thesis by (intro conjI)
qed

section \<open>Applying the entries\<close>

lemma rangeOrder_mset: "mset (rangeOrder ks xs) = mset xs"
proof (induction ks arbitrary: xs)
  case Nil
  then show ?case by simp
next
  case (Cons k ks)
  show ?case
  proof (cases "xs = []")
    case True
    then show ?thesis by simp
  next
    case False
    let ?i = "k mod length xs"
    have i: "?i < length xs" using False by simp
    have "mset xs = mset (take ?i xs @ xs ! ?i # drop (Suc ?i) xs)"
      using i by (simp add: id_take_nth_drop[symmetric])
    then have "mset xs = add_mset (xs ! ?i) (mset (take ?i xs @ drop (Suc ?i) xs))"
      by simp
    with False Cons.IH[of "take ?i xs @ drop (Suc ?i) xs"] show ?thesis
      by (simp add: Let_def)
  qed
qed

lemma rangeOrder_Nil_iff: "rangeOrder ks xs = [] \<longleftrightarrow> xs = []"
  using rangeOrder_mset[of ks xs] by (metis mset_zero_iff)

lemma rangeOrder_set: "set (rangeOrder ks xs) = set xs"
  using rangeOrder_mset[of ks xs] by (metis set_mset_mset)

lemma applyEntries_Add:
  "Action t = ActionAdd \<Longrightarrow>
     applyEntries env t ig es c = applyAll (\<lambda>c e. Add env c e ig) (map snd es) c"
  by (induction es arbitrary: c) (auto split: sum.splits)

lemma applyEntries_Remove:
  "Action t = ActionRemove \<Longrightarrow>
     applyEntries env t ig es c = applyAll (\<lambda>c e. Remove env c e CaseRemovePrefix ig) (map snd es) c"
  by (induction es arbitrary: c) (auto split: sum.splits)

lemma applyEntries_Other:
  "Action t = ActionOther a \<Longrightarrow> es \<noteq> [] \<Longrightarrow> applyEntries env t ig es c = Inl ErrUnknownAction"
  by (cases es) auto

lemma Input_entries:
  "readSources env t = Inr es \<Longrightarrow> es \<noteq> [] \<Longrightarrow>
     Input env t c = applyEntries env t (ignoreIPTypeOf (OnlyIPType t)) (rangeOrder (Sched env) es) c"
  by (simp add: Input_def)

text \<open>
  Claim C6. When the sources produced the non-empty map \<open>entries\<close>, Input applies every
  entry of it once (in the order of the range loop): by Container.Add for action add, by
  Container.Remove in prefix-covering mode for action remove, stopping at the first error
  of the container; for any other action Input fails with the unknown-action error.
\<close>

theorem C6_entries_applied_under_action:
  assumes "readSources env t = Inr entries" and "entries \<noteq> []"
  shows "(Action t = ActionAdd \<longrightarrow>
            Input env t c = applyAll (\<lambda>c e. Add env c e (ignoreIPTypeOf (OnlyIPType t)))
                              (map snd (rangeOrder (Sched env) entries)) c)
       \<and> (Action t = ActionRemove \<longrightarrow>
            Input env t c = applyAll (\<lambda>c e. Remove env c e CaseRemovePrefix (ignoreIPTypeOf (OnlyIPType t)))
                              (map snd (rangeOrder (Sched env) entries)) c)
       \<and> (Action t \<noteq> ActionAdd \<and> Action t \<noteq> ActionRemove \<longrightarrow>
            Input env t c = Inl ErrUnknownAction)
       \<and> mset (map snd (rangeOrder (Sched env) entries)) = mset (map snd entries)"
proof -
  have ne: "rangeOrder (Sched env) entries \<noteq> []"
    using assms(2) by (simp add: rangeOrder_Nil_iff)
  have other: "Action t \<noteq> ActionAdd \<and> Action t \<noteq> ActionRemove \<longrightarrow> Input env t c = Inl ErrUnknownAction"
  proof
    assume "Action t \<noteq> ActionAdd \<and> Action t \<noteq> ActionRemove"
    then obtain a where "Action t = ActionOther a" by (cases "Action t") auto
    then show "Input env t c = Inl ErrUnknownAction"
      using ne by (simp add: Input_entries[OF assms] applyEntries_Other)
  qed
  have m: "mset (map snd (rangeOrder (Sched env) entries)) = mset (map snd entries)"
    by (simp add: rangeOrder_mset)
  show ?thesis
    using other m by (simp add: Input_entries[OF assms] applyEntries_Add applyEntries_Remove)
qed

theorem C6_witness:
  "Input (exWorld [1]) (exTextIn ActionRemove exDirConfig) []
     = Inr [RemoveCall (''CN'', [''1.0.0.0/8'', ''10.0.0.0/8'']) CaseRemovePrefix IgnoreNone,
            RemoveCall (''AU'', [''2.0.0.0/8'']) CaseRemovePrefix IgnoreNone]
   \<and> Input (exWorld [1]) (exTextIn (ActionOther ''replace'') exDirConfig) [] = Inl ErrUnknownAction"
proof -
  let ?es = "[(''AU'', (''AU'', [''2.0.0.0/8''])), (''CN'', (''CN'', [''1.0.0.0/8'', ''10.0.0.0/8'']))]"
  have ne: "?es \<noteq> []" by simp
  have r1: "readSources (exWorld [1]) (exTextIn ActionRemove exDirConfig) = Inr ?es"
    by code_simp
  have r2: "readSources (exWorld [1]) (exTextIn (ActionOther ''replace'') exDirConfig) = Inr ?es"
    by code_simp
  have a1: "Action (exTextIn ActionRemove exDirConfig) = ActionRemove"
    by (simp add: exTextIn_def makeTextIn_def)
  have a2: "Action (exTextIn (ActionOther ''replace'') exDirConfig) \<noteq> ActionAdd
            \<and> Action (exTextIn (ActionOther ''replace'') exDirConfig) \<noteq> ActionRemove"
    by (simp add: exTextIn_def makeTextIn_def)
  have "Input (exWorld [1]) (exTextIn ActionRemove exDirConfig) []
          = applyAll (\<lambda>c e. Remove (exWorld [1]) c e CaseRemovePrefix
                              (ignoreIPTypeOf (OnlyIPType (exTextIn ActionRemove exDirConfig))))
              (map snd (rangeOrder (Sched (exWorld [1])) ?es)) []"
    using conjunct1[OF conjunct2[OF C6_entries_applied_under_action[OF r1 ne, of "[]"]]] a1
    by (rule mp)
  also have "\<dots> = Inr [RemoveCall (''CN'', [''1.0.0.0/8'', ''10.0.0.0/8'']) CaseRemovePrefix IgnoreNone,
            RemoveCall (''AU'', [''2.0.0.0/8'']) CaseRemovePrefix IgnoreNone]"
    by code_simp
  finally have first: "Input (exWorld [1]) (exTextIn ActionRemove exDirConfig) []
     = Inr [RemoveCall (''CN'', [''1.0.0.0/8'', ''10.0.0.0/8'']) CaseRemovePrefix IgnoreNone,
            RemoveCall (''AU'', [''2.0.0.0/8'']) CaseRemovePrefix IgnoreNone]" .
  have second: "Input (exWorld [1]) (exTextIn (ActionOther ''replace'') exDirConfig) [] = Inl ErrUnknownAction"
    using conjunct1[OF conjunct2[OF conjunct2[OF C6_entries_applied_under_action[OF r2 ne, of "[]"]]]] a2
    by (rule mp)
  from first second show ?thesis by (rule conjI)
qed


section \<open>The ignore option\<close>

lemma removePrefixes_container:
  "removePrefixes (env\<lparr>Add := a, Remove := r\<rparr>) line ps = removePrefixes env line ps"
  by (induction ps arbitrary: line) simp_all

lemma removeSuffixes_container:
  "removeSuffixes (env\<lparr>Add := a, Remove := r\<rparr>) line ss = removeSuffixes env line ss"
  by (induction ss arbitrary: line) simp_all

lemma normalizeLine_container:
  "normalizeLine (env\<lparr>Add := a, Remove := r\<rparr>) t line = normalizeLine env t line"
  by (simp add: normalizeLine_def Let_def removePrefixes_container removeSuffixes_container)

lemma scanLines_container:
  "scanLines (env\<lparr>Add := a, Remove := r\<rparr>) t ls e = scanLines env t ls e"
  by (induction ls arbitrary: e) (simp_all add: normalizeLine_container split: option.splits sum.splits)

lemma scanFile_container:
  "scanFile (env\<lparr>Add := a, Remove := r\<rparr>) t rd e = scanFile env t rd e"
  by (simp add: scanFile_def scanLines_container split: sum.splits)

lemma entryNameOf_container:
  "entryNameOf (env\<lparr>Add := a, Remove := r\<rparr>) path name = entryNameOf env path name"
  by (simp add: entryNameOf_def Let_def split: option.splits)

lemma walkLocalFile_container:
  "walkLocalFile (env\<lparr>Add := a, Remove := r\<rparr>) t path name es = walkLocalFile env t path name es"
  by (simp add: walkLocalFile_def entryNameOf_container scanFile_container split: sum.splits)

lemma walkVisits_container:
  "walkVisits (env\<lparr>Add := a, Remove := r\<rparr>) t vs es = walkVisits env t vs es"
proof (induction vs arbitrary: es)
  case Nil
  then show ?case by simp
next
  case (Cons v vs)
  obtain path isDir werr where v: "v = Visit path isDir werr" by (cases v)
  show ?case unfolding v
    by (simp add: walkLocalFile_container Cons.IH split: option.splits sum.splits)
qed

lemma walkRemoteFile_container:
  "walkRemoteFile (env\<lparr>Add := a, Remove := r\<rparr>) t url name es = walkRemoteFile env t url name es"
  by (simp add: walkRemoteFile_def Let_def scanFile_container split: sum.splits prod.splits)

lemma addPrefixes_container:
  "addPrefixes (env\<lparr>Add := a, Remove := r\<rparr>) e ips = addPrefixes env e ips"
  by (induction ips arbitrary: e) (simp_all split: sum.splits)

lemma appendIPOrCIDR_container:
  "appendIPOrCIDR (env\<lparr>Add := a, Remove := r\<rparr>) t ips name es = appendIPOrCIDR env t ips name es"
  by (simp add: appendIPOrCIDR_def Let_def addPrefixes_container split: sum.splits option.splits)

lemma uriStep_container:
  "uriStep (env\<lparr>Add := a, Remove := r\<rparr>) t = uriStep env t"
  by (simp add: uriStep_def walkLocalFile_container walkRemoteFile_container)

lemma readSources_container:
  "readSources (env\<lparr>Add := a, Remove := r\<rparr>) t = readSources env t"
  by (simp add: readSources_def walkDir_def walkVisits_container
      uriStep_container appendIPOrCIDR_container split: sum.splits)

lemma applyEntries_ignore:
  "applyEntries (env\<lparr>Add := \<lambda>c e _. Add env c e ig, Remove := \<lambda>c e m _. Remove env c e m ig\<rparr>) t ig es c
     = applyEntries env t ig es c"
  by (induction es arbitrary: c) (auto split: Action.splits sum.splits)

text \<open>
  Claim C7. The ignore option of an invocation is ignore-IPv6 when onlyIPType is IPv4,
  ignore-IPv4 when it is IPv6 and no filtering otherwise, and it is the option of every
  call of Container.Add and Container.Remove: a container that disregards the option it
  is given and uses this one instead gives the same result.
\<close>

theorem C7_onlyIPType_ignore_option:
  "(OnlyIPType t = IPv4 \<longrightarrow> ignoreIPTypeOf (OnlyIPType t) = IgnoreIPv6)
   \<and> (OnlyIPType t = IPv6 \<longrightarrow> ignoreIPTypeOf (OnlyIPType t) = IgnoreIPv4)
   \<and> (OnlyIPType t \<noteq> IPv4 \<and> OnlyIPType t \<noteq> IPv6 \<longrightarrow> ignoreIPTypeOf (OnlyIPType t) = IgnoreNone)
   \<and> Input (env\<lparr>Add := \<lambda>c e _. Add env c e (ignoreIPTypeOf (OnlyIPType t)),
                 Remove := \<lambda>c e m _. Remove env c e m (ignoreIPTypeOf (OnlyIPType t))\<rparr>) t c
       = Input env t c"
proof -
  have tr: "(OnlyIPType t = IPv4 \<longrightarrow> ignoreIPTypeOf (OnlyIPType t) = IgnoreIPv6)
   \<and> (OnlyIPType t = IPv6 \<longrightarrow> ignoreIPTypeOf (OnlyIPType t) = IgnoreIPv4)
   \<and> (OnlyIPType t \<noteq> IPv4 \<and> OnlyIPType t \<noteq> IPv6 \<longrightarrow> ignoreIPTypeOf (OnlyIPType t) = IgnoreNone)"
    by (cases "OnlyIPType t") (simp_all add: ignoreIPTypeOf_def)
  have "Input (env\<lparr>Add := \<lambda>c e _. Add env c e (ignoreIPTypeOf (OnlyIPType t)),
                 Remove := \<lambda>c e m _. Remove env c e m (ignoreIPTypeOf (OnlyIPType t))\<rparr>) t c
       = Input env t c"
    unfolding Input_def readSources_container
    by (simp add: applyEntries_ignore split: sum.splits)
  with tr show ?thesis by (intro conjI) (elim conjE, assumption)+
qed


theorem C7_witness:
  "OnlyIPType (exTextIn ActionAdd (exDirConfig\<lparr>tmp_OnlyIPType := IPv4\<rparr>)) = IPv4
   \<and> Input (exWorld []\<lparr>Add := \<lambda>c e _. Inr (c @ [AddCall e IgnoreIPv6]),
                        Remove := \<lambda>c e m _. Inr (c @ [RemoveCall e m IgnoreIPv6])\<rparr>)
        (exTextIn ActionAdd (exDirConfig\<lparr>tmp_OnlyIPType := IPv4\<rparr>)) []
      = Input (exWorld []) (exTextIn ActionAdd (exDirConfig\<lparr>tmp_OnlyIPType := IPv4\<rparr>)) []
   \<and> Input (exWorld []) (exTextIn ActionAdd (exDirConfig\<lparr>tmp_OnlyIPType := IPv4\<rparr>)) []
      = Inr [AddCall (''AU'', [''2.0.0.0/8'']) IgnoreIPv6,
             AddCall (''CN'', [''1.0.0.0/8'', ''10.0.0.0/8'']) IgnoreIPv6]"
proof -
  let ?t = "exTextIn ActionAdd (exDirConfig\<lparr>tmp_OnlyIPType := IPv4\<rparr>)"
  have o: "OnlyIPType ?t = IPv4" by (simp add: exTextIn_def makeTextIn_def exDirConfig_def)
  note c7 = C7_onlyIPType_ignore_option[of ?t "exWorld []" "[]"]
  from c7 have "OnlyIPType ?t = IPv4 \<longrightarrow> ignoreIPTypeOf (OnlyIPType ?t) = IgnoreIPv6"
    by (rule conjunct1)
  with o have ig: "ignoreIPTypeOf (OnlyIPType ?t) = IgnoreIPv6" by (rule rev_mp)
  from c7 have "Input (exWorld []\<lparr>Add := \<lambda>c e _. Add (exWorld []) c e (ignoreIPTypeOf (OnlyIPType ?t)),
                 Remove := \<lambda>c e m _. Remove (exWorld []) c e m (ignoreIPTypeOf (OnlyIPType ?t))\<rparr>) ?t []
       = Input (exWorld []) ?t []"
    by (elim conjE)
  then have same: "Input (exWorld []\<lparr>Add := \<lambda>c e _. Inr (c @ [AddCall e IgnoreIPv6]),
                        Remove := \<lambda>c e m _. Inr (c @ [RemoveCall e m IgnoreIPv6])\<rparr>) ?t []
      = Input (exWorld []) ?t []"
    unfolding ig by (simp add: exWorld_def exEnv_def)
  have "Input (exWorld []\<lparr>Add := \<lambda>c e _. Inr (c @ [AddCall e IgnoreIPv6]),
                        Remove := \<lambda>c e m _. Inr (c @ [RemoveCall e m IgnoreIPv6])\<rparr>) ?t []
      = Inr [AddCall (''AU'', [''2.0.0.0/8'']) IgnoreIPv6,
             AddCall (''CN'', [''1.0.0.0/8'', ''10.0.0.0/8'']) IgnoreIPv6]"
    by code_simp
  with same have "Input (exWorld []) ?t []
      = Inr [AddCall (''AU'', [''2.0.0.0/8'']) IgnoreIPv6,
             AddCall (''CN'', [''1.0.0.0/8'', ''10.0.0.0/8'']) IgnoreIPv6]"
    by simp
  with o same show ?thesis by (intro conjI)
qed


section \<open>No entry\<close>

lemma walkVisits_all_skipped:
  "Want t \<noteq> {} \<Longrightarrow> list_all (skippedVisit env t) vs \<Longrightarrow> walkVisits env t vs es = Inr es"
proof (induction vs)
  case Nil
  then show ?case by simp
next
  case (Cons v vs)
  obtain path isDir werr where v: "v = Visit path isDir werr" by (cases v)
  from Cons.prems have sk: "skippedVisit env t v" and rest: "list_all (skippedVisit env t) vs"
    by simp_all
  from Cons.IH[OF Cons.prems(1) rest] have ih: "walkVisits env t vs es = Inr es" .
  from sk v have werr: "werr = None" by (simp add: skippedVisit_def)
  show ?case
  proof (cases isDir)
    case True
    with v werr ih show ?thesis by simp
  next
    case False
    with sk v obtain code where code: "entryNameOf env path [] = Inr code" "code \<notin> Want t"
      by (auto simp: skippedVisit_def split: sum.splits)
    then have "walkLocalFile env t path [] es = Inr es"
      using Cons.prems(1) by (simp add: walkLocalFile_def)
    with v werr False ih show ?thesis by simp
  qed
qed

text \<open>
  Claim C5. When the sources are read without error and produce no entry, Input fails with
  the error "no entry is generated". This is the case in particular when a directory is
  walked with a non-empty want list and every visit is a directory or a file whose code
  is not wanted.
\<close>

theorem C5_no_entry_is_generated:
  "(readSources env t = Inr [] \<longrightarrow> Input env t c = Inl (NoEntryGenerated (Type t) (Action t)))
   \<and> (InputDir t \<noteq> [] \<and> Want t \<noteq> {} \<and> list_all (skippedVisit env t) (Walk env (InputDir t)) \<longrightarrow>
        Input env t c = Inl (NoEntryGenerated (Type t) (Action t)))"
proof -
  have a: "readSources env t = Inr [] \<longrightarrow> Input env t c = Inl (NoEntryGenerated (Type t) (Action t))"
    by (simp add: Input_def)
  have b: "InputDir t \<noteq> [] \<and> Want t \<noteq> {} \<and> list_all (skippedVisit env t) (Walk env (InputDir t)) \<longrightarrow>
        Input env t c = Inl (NoEntryGenerated (Type t) (Action t))"
  proof
    assume h: "InputDir t \<noteq> [] \<and> Want t \<noteq> {} \<and> list_all (skippedVisit env t) (Walk env (InputDir t))"
    then have "walkVisits env t (Walk env (InputDir t)) [] = Inr []"
      using walkVisits_all_skipped by blast
    with h have "readSources env t = Inr []"
      by (simp add: readSources_def walkDir_def)
    with a show "Input env t c = Inl (NoEntryGenerated (Type t) (Action t))" by (rule mp)
  qed
  from a b show ?thesis by (rule conjI)
qed


theorem C5_witness:
  "Want (exTextIn ActionAdd (exDirConfig\<lparr>tmp_Want := [''zz'']\<rparr>)) = {''ZZ''}
   \<and> Input (exWorld []) (exTextIn ActionAdd (exDirConfig\<lparr>tmp_Want := [''zz'']\<rparr>)) []
       = Inl (NoEntryGenerated ''text'' ActionAdd)"
proof -
  let ?t = "exTextIn ActionAdd (exDirConfig\<lparr>tmp_Want := [''zz'']\<rparr>)"
  have w: "Want ?t = {''ZZ''}" by code_simp
  have h: "InputDir ?t \<noteq> [] \<and> Want ?t \<noteq> {}
           \<and> list_all (skippedVisit (exWorld []) ?t) (Walk (exWorld []) (InputDir ?t))"
    by code_simp
  have ty: "Type ?t = ''text''" "Action ?t = ActionAdd" by code_simp+
  have "InputDir ?t \<noteq> [] \<and> Want ?t \<noteq> {}
           \<and> list_all (skippedVisit (exWorld []) ?t) (Walk (exWorld []) (InputDir ?t))
        \<longrightarrow> Input (exWorld []) ?t [] = Inl (NoEntryGenerated (Type ?t) (Action ?t))"
    using C5_no_entry_is_generated[of "exWorld []" ?t "[]"] by (rule conjunct2)
  then have "Input (exWorld []) ?t [] = Inl (NoEntryGenerated (Type ?t) (Action ?t))"
    using h by (rule mp)
  with w ty show ?thesis by simp
qed



section \<open>The fall through from uri to ipOrCIDR\<close>

lemma scanLines_error: "scanLines env t ls e = Inl err \<Longrightarrow> sourceError err"
  by (induction ls arbitrary: e) (auto simp: sourceError_def split: option.splits sum.splits)

lemma scanFile_error: "scanFile env t rd e = Inl err \<Longrightarrow> sourceError err"
  by (auto simp: scanFile_def sourceError_def dest: scanLines_error split: option.splits sum.splits)

lemma addPrefixes_error: "addPrefixes env e ips = Inl err \<Longrightarrow> sourceError err"
  by (induction ips arbitrary: e) (auto simp: sourceError_def split: sum.splits)

lemma entryNameOf_error: "entryNameOf env path name = Inl err \<Longrightarrow> sourceError err"
  by (auto simp: entryNameOf_def Let_def sourceError_def split: if_splits option.splits)

lemma walkLocalFile_error: "walkLocalFile env t path name es = Inl err \<Longrightarrow> sourceError err"
  unfolding walkLocalFile_def
  by (auto simp: sourceError_def dest: scanFile_error entryNameOf_error split: if_splits sum.splits)

lemma walkRemoteFile_error: "walkRemoteFile env t url name es = Inl err \<Longrightarrow> sourceError err"
  unfolding walkRemoteFile_def
  by (auto simp: sourceError_def Let_def dest: scanFile_error split: if_splits sum.splits prod.splits)

lemma appendIPOrCIDR_error: "appendIPOrCIDR env t ips name es = Inl err \<Longrightarrow> sourceError err"
  unfolding appendIPOrCIDR_def
  by (auto simp: Let_def dest: addPrefixes_error split: sum.splits)

lemma uriStep_error: "uriStep env t = Inl err \<Longrightarrow> sourceError err"
  unfolding uriStep_def
  by (auto dest: walkLocalFile_error walkRemoteFile_error split: if_splits)

lemma applyEntries_error:
  "applyEntries env t ig es c = Inl err \<Longrightarrow> err = ErrUnknownAction \<or> sourceError err"
  by (induction es arbitrary: c) (auto simp: sourceError_def split: Action.splits sum.splits)

lemma appendIPOrCIDR_stores:
  "appendIPOrCIDR env t ips name es = Inr es' \<Longrightarrow>
     es' \<noteq> [] \<and> map_of es' (ToUpper env name) \<noteq> None"
  unfolding appendIPOrCIDR_def
  by (auto simp: Let_def update_conv' split: sum.splits)

lemma appendIPOrCIDR_Nil:
  "appendIPOrCIDR env t [] name es =
     Inr (AList.update (ToUpper env name)
            (case map_of es (ToUpper env name) of Some found \<Rightarrow> found
             | None \<Rightarrow> NewEntry env (ToUpper env name)) es)"
  by (simp add: appendIPOrCIDR_def Let_def)

lemma readSources_uri:
  "InputDir t = [] \<Longrightarrow> Name t \<noteq> [] \<Longrightarrow> URI t \<noteq> [] \<Longrightarrow>
     readSources env t =
       (case uriStep env t of
          Inl err \<Rightarrow> Inl err
        | Inr es \<Rightarrow> appendIPOrCIDR env t (IPOrCIDR t) (Name t) es)"
  by (simp add: readSources_def)

text \<open>
  Claim C10. With name and uri set (and no inputDir), a uri step that returns the map
  \<open>es\<close> without error always goes on to appendIPOrCIDR on \<open>es\<close>; whenever appendIPOrCIDR
  returns, the map is not empty and holds an entry under the upper-cased name; with an
  empty ipOrCIDR it always returns, whatever the uri step left in the map (nothing, when
  the want list skipped the source). Hence Input never returns the error "no entry is
  generated" in this mode.
\<close>

theorem C10_uri_mode_falls_through:
  assumes "InputDir t = []" and "Name t \<noteq> []" and "URI t \<noteq> []"
  shows "(\<forall>es. uriStep env t = Inr es \<longrightarrow>
             readSources env t = appendIPOrCIDR env t (IPOrCIDR t) (Name t) es)
       \<and> (\<forall>es es'. appendIPOrCIDR env t (IPOrCIDR t) (Name t) es = Inr es' \<longrightarrow>
             es' \<noteq> [] \<and> map_of es' (ToUpper env (Name t)) \<noteq> None)
       \<and> (\<forall>es. \<exists>es'. appendIPOrCIDR env t [] (Name t) es = Inr es'
             \<and> es' \<noteq> [] \<and> map_of es' (ToUpper env (Name t)) \<noteq> None)
       \<and> (\<forall>ty a. Input env t c \<noteq> Inl (NoEntryGenerated ty a))"
proof -
  have fall: "\<forall>es. uriStep env t = Inr es \<longrightarrow>
             readSources env t = appendIPOrCIDR env t (IPOrCIDR t) (Name t) es"
    by (simp add: readSources_uri[OF assms])
  have stores: "\<forall>es es'. appendIPOrCIDR env t (IPOrCIDR t) (Name t) es = Inr es' \<longrightarrow>
             es' \<noteq> [] \<and> map_of es' (ToUpper env (Name t)) \<noteq> None"
    using appendIPOrCIDR_stores by blast
  have always: "\<forall>es. \<exists>es'. appendIPOrCIDR env t [] (Name t) es = Inr es'
             \<and> es' \<noteq> [] \<and> map_of es' (ToUpper env (Name t)) \<noteq> None"
    by (simp add: appendIPOrCIDR_Nil update_conv')
  have never: "\<forall>ty a. Input env t c \<noteq> Inl (NoEntryGenerated ty a)"
  proof (intro allI notI)
    fix ty a
    assume bad: "Input env t c = Inl (NoEntryGenerated ty a)"
    have nse: "\<not> sourceError (NoEntryGenerated ty a)" by (simp add: sourceError_def)
    show False
    proof (cases "readSources env t")
      case (Inl err)
      with bad have err: "err = NoEntryGenerated ty a" by (simp add: Input_def)
      from Inl have "sourceError err"
        unfolding readSources_uri[OF assms]
        by (auto dest: uriStep_error appendIPOrCIDR_error split: sum.splits)
      with err nse show False by simp
    next
      case (Inr es)
      then have "es \<noteq> []"
        unfolding readSources_uri[OF assms]
        by (auto dest: appendIPOrCIDR_stores split: sum.splits)
      with Inr bad have "applyEntries env t (ignoreIPTypeOf (OnlyIPType t))
                           (rangeOrder (Sched env) es) c = Inl (NoEntryGenerated ty a)"
        by (simp add: Input_def)
      from applyEntries_error[OF this] nse show False by simp
    qed
  qed
  from fall stores always never show ?thesis by (intro conjI)
qed

theorem C10_witness:
  "Want (exTextIn ActionAdd exUriConfig) = {''US''}
   \<and> uriStep (exWorld []) (exTextIn ActionAdd exUriConfig) = Inr []
   \<and> readSources (exWorld []) (exTextIn ActionAdd exUriConfig) = Inr [(''CN'', (''CN'', []))]
   \<and> Input (exWorld []) (exTextIn ActionAdd exUriConfig) [] = Inr [AddCall (''CN'', []) IgnoreNone]
   \<and> Input (exWorld []) (exTextIn ActionAdd exUriConfig) [] \<noteq> Inl (NoEntryGenerated ''text'' ActionAdd)"
proof -
  let ?t = "exTextIn ActionAdd exUriConfig"
  have h: "InputDir ?t = []" "Name ?t \<noteq> []" "URI ?t \<noteq> []"
    by (simp_all add: exTextIn_def makeTextIn_def exUriConfig_def zeroTmp_def)
  have w: "Want ?t = {''US''}" by code_simp
  have u: "uriStep (exWorld []) ?t = Inr []" by code_simp
  have ip: "IPOrCIDR ?t = []"
    by (simp add: exTextIn_def makeTextIn_def exUriConfig_def zeroTmp_def)
  note c10 = C10_uri_mode_falls_through[OF h, of "exWorld []" "[]"]
  from c10 have "\<forall>es. uriStep (exWorld []) ?t = Inr es \<longrightarrow>
             readSources (exWorld []) ?t = appendIPOrCIDR (exWorld []) ?t (IPOrCIDR ?t) (Name ?t) es"
    by (rule conjunct1)
  with u have "readSources (exWorld []) ?t = appendIPOrCIDR (exWorld []) ?t (IPOrCIDR ?t) (Name ?t) []"
    by simp
  also have "\<dots> = Inr [(''CN'', (''CN'', []))]" by code_simp
  finally have r: "readSources (exWorld []) ?t = Inr [(''CN'', (''CN'', []))]" .
  from c10 have "\<forall>ty a. Input (exWorld []) ?t [] \<noteq> Inl (NoEntryGenerated ty a)"
    by (elim conjE)
  then have n: "Input (exWorld []) ?t [] \<noteq> Inl (NoEntryGenerated ''text'' ActionAdd)"
    by simp
  have i: "Input (exWorld []) ?t [] = Inr [AddCall (''CN'', []) IgnoreNone]" by code_simp
  from w u r i n show ?thesis by (intro conjI)
qed

section \<open>The want list\<close>

lemma walkVisits_append:
  "walkVisits env t (xs @ ys) es =
     (case walkVisits env t xs es of Inl err \<Rightarrow> Inl err | Inr es' \<Rightarrow> walkVisits env t ys es')"
proof (induction xs arbitrary: es)
  case Nil
  then show ?case by simp
next
  case (Cons v xs)
  obtain path isDir werr where v: "v = Visit path isDir werr" by (cases v)
  show ?case unfolding v
    by (simp add: Cons.IH split: option.splits sum.splits)
qed

lemma walkLocalFile_result:
  "walkLocalFile env t path name es = Inr es' \<Longrightarrow>
     \<exists>code. entryNameOf env path name = Inr code
       \<and> (if Want t \<noteq> {} \<and> code \<notin> Want t then es' = es
          else map_of es code = None \<and> (\<exists>entry. es' = AList.update code entry es))"
  unfolding walkLocalFile_def
  by (auto split: sum.splits if_splits)

lemma walkLocalFile_keys:
  assumes "walkLocalFile env t path name es = Inr es'"
  shows "fst ` set es \<subseteq> fst ` set es'
         \<and> (Want t \<noteq> {} \<longrightarrow> fst ` set es' \<subseteq> fst ` set es \<union> Want t)"
proof -
  from walkLocalFile_result[OF assms] obtain code where
    code: "if Want t \<noteq> {} \<and> code \<notin> Want t then es' = es
           else map_of es code = None \<and> (\<exists>entry. es' = AList.update code entry es)"
    by blast
  show ?thesis
  proof (cases "Want t \<noteq> {} \<and> code \<notin> Want t")
    case True
    with code have "es' = es" by simp
    then show ?thesis by simp
  next
    case False
    with code obtain entry where "es' = AList.update code entry es" by auto
    then have "fst ` set es' = {code} \<union> fst ` set es" by (simp add: dom_update)
    with False show ?thesis by auto
  qed
qed

lemma walkVisits_keys:
  "walkVisits env t vs es = Inr es' \<Longrightarrow>
     fst ` set es \<subseteq> fst ` set es'
     \<and> (Want t \<noteq> {} \<longrightarrow> fst ` set es' \<subseteq> fst ` set es \<union> Want t)"
proof (induction vs arbitrary: es)
  case Nil
  then show ?case by simp
next
  case (Cons v vs)
  obtain path isDir werr where v: "v = Visit path isDir werr" by (cases v)
  show ?case
  proof (cases "werr = None \<and> \<not> isDir")
    case False
    with Cons.prems v have "walkVisits env t vs es = Inr es'"
      by (auto split: option.splits if_splits)
    from Cons.IH[OF this] show ?thesis .
  next
    case True
    with Cons.prems v obtain es1 where
      one: "walkLocalFile env t path [] es = Inr es1" and rest: "walkVisits env t vs es1 = Inr es'"
      by (auto split: sum.splits)
    from walkLocalFile_keys[OF one]
    have k1: "fst ` set es \<subseteq> fst ` set es1"
      and k2: "Want t \<noteq> {} \<longrightarrow> fst ` set es1 \<subseteq> fst ` set es \<union> Want t"
      by simp_all
    from Cons.IH[OF rest]
    have k3: "fst ` set es1 \<subseteq> fst ` set es'"
      and k4: "Want t \<noteq> {} \<longrightarrow> fst ` set es' \<subseteq> fst ` set es1 \<union> Want t"
      by simp_all
    from k1 k3 have "fst ` set es \<subseteq> fst ` set es'" by (rule subset_trans)
    moreover have "Want t \<noteq> {} \<longrightarrow> fst ` set es' \<subseteq> fst ` set es \<union> Want t"
    proof
      assume w: "Want t \<noteq> {}"
      have aux: "\<And>A B C W :: string set. B \<subseteq> A \<union> W \<Longrightarrow> C \<subseteq> B \<union> W \<Longrightarrow> C \<subseteq> A \<union> W"
        by blast
      from k2 w have "fst ` set es1 \<subseteq> fst ` set es \<union> Want t" by (rule mp)
      moreover from k4 w have "fst ` set es' \<subseteq> fst ` set es1 \<union> Want t" by (rule mp)
      ultimately show "fst ` set es' \<subseteq> fst ` set es \<union> Want t" by (rule aux)
    qed
    ultimately show ?thesis by (rule conjI)
  qed
qed

text \<open>
  Claim C1, as amended. The want set of a converter holds the codes of wantedList trimmed
  and upper-cased, the blank ones dropped; it is non-empty exactly when wantedList has an
  entry that is not blank. When the want set is non-empty, a file source whose code is not
  in it is skipped without error and without a change of the map: by walkLocalFile for
  the code that the name or the file name gives, by walkRemoteFile (after a response with
  status 200) for the upper-cased name. In inputDir mode every entry that Input applies
  has its code in the want set.
\<close>

theorem C1_amended_want_list_skips_files:
  assumes "Want t \<noteq> {}"
  shows "(\<forall>path name code es. entryNameOf env path name = Inr code \<and> code \<notin> Want t \<longrightarrow>
            walkLocalFile env t path name es = Inr es)
       \<and> (\<forall>url name body es. HttpGet env url = Inr (200, body) \<and> ToUpper env name \<notin> Want t \<longrightarrow>
            walkRemoteFile env t url name es = Inr es)
       \<and> (\<forall>es. InputDir t \<noteq> [] \<and> readSources env t = Inr es \<longrightarrow>
            fst ` set (rangeOrder (Sched env) es) \<subseteq> Want t)
       \<and> (\<forall>action cfg. (Want (makeTextIn env action cfg) \<noteq> {})
             = (\<exists>w\<in>set (tmp_Want cfg). ToUpper env (TrimSpace env w) \<noteq> []))"
proof -
  have loc: "\<forall>path name code es. entryNameOf env path name = Inr code \<and> code \<notin> Want t \<longrightarrow>
            walkLocalFile env t path name es = Inr es"
    using assms by (simp add: walkLocalFile_def)
  have rem: "\<forall>url name body es. HttpGet env url = Inr (200, body) \<and> ToUpper env name \<notin> Want t \<longrightarrow>
            walkRemoteFile env t url name es = Inr es"
    using assms by (simp add: walkRemoteFile_def)
  have dir: "\<forall>es. InputDir t \<noteq> [] \<and> readSources env t = Inr es \<longrightarrow>
            fst ` set (rangeOrder (Sched env) es) \<subseteq> Want t"
  proof (intro allI impI)
    fix es
    assume h: "InputDir t \<noteq> [] \<and> readSources env t = Inr es"
    then have "InputDir t \<noteq> []" and "readSources env t = Inr es" by simp_all
    then have "walkVisits env t (Walk env (InputDir t)) [] = Inr es"
      by (simp add: readSources_def walkDir_def)
    from walkVisits_keys[OF this] assms have "fst ` set es \<subseteq> Want t" by simp
    then show "fst ` set (rangeOrder (Sched env) es) \<subseteq> Want t"
      by (simp add: rangeOrder_set)
  qed
  have built: "\<forall>action cfg. (Want (makeTextIn env action cfg) \<noteq> {})
             = (\<exists>w\<in>set (tmp_Want cfg). ToUpper env (TrimSpace env w) \<noteq> [])"
  proof (intro allI)
    fix action cfg
    have "Want (makeTextIn env action cfg)
            = {w'. \<exists>w\<in>set (tmp_Want cfg). w' = ToUpper env (TrimSpace env w) \<and> w' \<noteq> []}"
      by (simp add: makeTextIn_def filterWant_eq)
    then show "(Want (makeTextIn env action cfg) \<noteq> {})
             = (\<exists>w\<in>set (tmp_Want cfg). ToUpper env (TrimSpace env w) \<noteq> [])"
      by auto
  qed
  from loc rem dir built show ?thesis by (intro conjI)
qed

theorem C1_counterexample:
  "tmp_Want exBlankWantConfig \<noteq> []
   \<and> Want (exTextIn ActionAdd exBlankWantConfig) = {}
   \<and> entryNameOf (exWorld []) ''data/AU.txt'' [] = Inr ''AU''
   \<and> ''AU'' \<notin> Want (exTextIn ActionAdd exBlankWantConfig)
   \<and> Input (exWorld []) (exTextIn ActionAdd exBlankWantConfig) []
       = Inr [AddCall (''AU'', [''2.0.0.0/8'']) IgnoreNone,
              AddCall (''CN'', [''1.0.0.0/8'', ''10.0.0.0/8'']) IgnoreNone]"
  by code_simp

theorem C1_witness:
  "Want (exTextIn ActionAdd (exDirConfig\<lparr>tmp_Want := [''cn'']\<rparr>)) \<noteq> {}
   \<and> (\<exists>w\<in>set (tmp_Want (exDirConfig\<lparr>tmp_Want := [''cn'']\<rparr>)).
         ToUpper (exWorld []) (TrimSpace (exWorld []) w) \<noteq> [])
   \<and> walkLocalFile (exWorld []) (exTextIn ActionAdd (exDirConfig\<lparr>tmp_Want := [''cn'']\<rparr>))
        ''data/AU.txt'' [] [] = Inr []
   \<and> Input (exWorld []) (exTextIn ActionAdd (exDirConfig\<lparr>tmp_Want := [''cn'']\<rparr>)) []
       = Inr [AddCall (''CN'', [''1.0.0.0/8'', ''10.0.0.0/8'']) IgnoreNone]"
proof -
  let ?t = "exTextIn ActionAdd (exDirConfig\<lparr>tmp_Want := [''cn'']\<rparr>)"
  have w: "Want ?t \<noteq> {}" by code_simp
  have n: "entryNameOf (exWorld []) ''data/AU.txt'' [] = Inr ''AU'' \<and> ''AU'' \<notin> Want ?t"
    by code_simp
  from C1_amended_want_list_skips_files[OF w, of "exWorld []"]
  have "\<forall>path name code es. entryNameOf (exWorld []) path name = Inr code \<and> code \<notin> Want ?t \<longrightarrow>
            walkLocalFile (exWorld []) ?t path name es = Inr es"
    by (rule conjunct1)
  then have "entryNameOf (exWorld []) ''data/AU.txt'' [] = Inr ''AU'' \<and> ''AU'' \<notin> Want ?t \<longrightarrow>
            walkLocalFile (exWorld []) ?t ''data/AU.txt'' [] [] = Inr []"
    by (elim allE)
  then have s: "walkLocalFile (exWorld []) ?t ''data/AU.txt'' [] [] = Inr []"
    using n by (rule mp)
  have i: "Input (exWorld []) ?t [] = Inr [AddCall (''CN'', [''1.0.0.0/8'', ''10.0.0.0/8'']) IgnoreNone]"
    by code_simp
  from C1_amended_want_list_skips_files[OF w, of "exWorld []"]
  have "\<forall>action cfg. (Want (makeTextIn (exWorld []) action cfg) \<noteq> {})
             = (\<exists>w\<in>set (tmp_Want cfg). ToUpper (exWorld []) (TrimSpace (exWorld []) w) \<noteq> [])"
    by (rule conjunct2[OF conjunct2[OF conjunct2]])
  then have "(Want (makeTextIn (exWorld []) ActionAdd (exDirConfig\<lparr>tmp_Want := [''cn'']\<rparr>)) \<noteq> {})
             = (\<exists>w\<in>set (tmp_Want (exDirConfig\<lparr>tmp_Want := [''cn'']\<rparr>)).
                  ToUpper (exWorld []) (TrimSpace (exWorld []) w) \<noteq> [])"
    by (elim allE)
  moreover have "Want (makeTextIn (exWorld []) ActionAdd (exDirConfig\<lparr>tmp_Want := [''cn'']\<rparr>)) \<noteq> {}"
    by code_simp
  ultimately have c: "\<exists>w\<in>set (tmp_Want (exDirConfig\<lparr>tmp_Want := [''cn'']\<rparr>)).
         ToUpper (exWorld []) (TrimSpace (exWorld []) w) \<noteq> []"
    by (rule iffD1)
  from w c s i show ?thesis by (intro conjI)
qed

section \<open>Duplicated lists\<close>

lemma walkLocalFile_wanted_key:
  assumes "walkLocalFile env t path name es = Inr es'"
    and "entryNameOf env path name = Inr code"
    and "Want t = {} \<or> code \<in> Want t"
  shows "code \<in> fst ` set es'"
proof -
  from walkLocalFile_result[OF assms(1)] assms(2,3)
  obtain entry where "es' = AList.update code entry es" by auto
  then show ?thesis by (simp add: dom_update)
qed

lemma walkLocalFile_duplicate:
  assumes "entryNameOf env path name = Inr code"
    and "Want t = {} \<or> code \<in> Want t"
    and "code \<in> fst ` set es"
  shows "walkLocalFile env t path name es = Inl (DuplicatedList code)"
proof -
  from assms(3) have "map_of es code \<noteq> None" by (simp add: map_of_eq_None_iff)
  with assms(1,2) show ?thesis by (auto simp: walkLocalFile_def)
qed

lemma walkVisits_file:
  "walkVisits env t (Visit path False None # rest) es =
     (case walkLocalFile env t path [] es of
        Inl err \<Rightarrow> Inl err
      | Inr es' \<Rightarrow> walkVisits env t rest es')"
  by simp

text \<open>
  Claim C8. When a directory walk visits two files whose names give the same code, and the
  code is retained by the want list (which is empty, or holds it), Input fails; and when
  the walk reaches the second file (the visits before it raise no error) the error is
  the duplicated-list error that names the code.
\<close>

theorem C8_duplicated_list:
  assumes walk: "Walk env (InputDir t) = pre @ Visit p1 False None # mid @ Visit p2 False None # post"
    and dir: "InputDir t \<noteq> []"
    and code1: "entryNameOf env p1 [] = Inr code"
    and code2: "entryNameOf env p2 [] = Inr code"
    and want: "Want t = {} \<or> code \<in> Want t"
  shows "(\<exists>err. Input env t c = Inl err)
       \<and> (\<forall>es. walkVisits env t (pre @ Visit p1 False None # mid) [] = Inr es \<longrightarrow>
             Input env t c = Inl (DuplicatedList code))"
proof -
  let ?front = "pre @ Visit p1 False None # mid"
  have split: "Walk env (InputDir t) = ?front @ Visit p2 False None # post"
    using walk by simp
  have rs: "readSources env t =
      (case walkVisits env t ?front [] of
         Inl err \<Rightarrow> Inl err
       | Inr es \<Rightarrow> walkVisits env t (Visit p2 False None # post) es)"
  proof -
    have "readSources env t = walkDir env t (InputDir t) []"
      using dir by (simp add: readSources_def)
    also have "\<dots> = walkVisits env t (?front @ Visit p2 False None # post) []"
      by (simp only: walkDir_def split)
    also have "\<dots> = (case walkVisits env t ?front [] of
         Inl err \<Rightarrow> Inl err
       | Inr es \<Rightarrow> walkVisits env t (Visit p2 False None # post) es)"
      by (rule walkVisits_append)
    finally show ?thesis .
  qed
  have reach: "\<forall>es. walkVisits env t ?front [] = Inr es \<longrightarrow> readSources env t = Inl (DuplicatedList code)"
  proof (intro allI impI)
    fix es
    assume front: "walkVisits env t ?front [] = Inr es"
    then obtain es0 where pre: "walkVisits env t pre [] = Inr es0"
      and tail: "walkVisits env t (Visit p1 False None # mid) es0 = Inr es"
      by (auto simp: walkVisits_append split: sum.splits)
    from tail obtain es1 where one: "walkLocalFile env t p1 [] es0 = Inr es1"
      and mid: "walkVisits env t mid es1 = Inr es"
      by (auto split: sum.splits)
    from walkLocalFile_wanted_key[OF one code1 want] have "code \<in> fst ` set es1" .
    moreover from walkVisits_keys[OF mid] have "fst ` set es1 \<subseteq> fst ` set es" by simp
    ultimately have "code \<in> fst ` set es" by (rule set_mp[rotated])
    from walkLocalFile_duplicate[OF code2 want this]
    have "walkVisits env t (Visit p2 False None # post) es = Inl (DuplicatedList code)"
      by (simp add: walkVisits_file)
    with front show "readSources env t = Inl (DuplicatedList code)"
      by (simp add: rs)
  qed
  have fails: "\<exists>err. readSources env t = Inl err"
  proof (cases "walkVisits env t ?front []")
    case (Inl err)
    then show ?thesis by (simp add: rs)
  next
    case (Inr es)
    with reach show ?thesis by blast
  qed
  have lift: "\<And>err. readSources env t = Inl err \<Longrightarrow> Input env t c = Inl err"
    by (simp add: Input_def)
  from fails lift have a: "\<exists>err. Input env t c = Inl err" by blast
  from reach lift have b: "\<forall>es. walkVisits env t ?front [] = Inr es \<longrightarrow>
             Input env t c = Inl (DuplicatedList code)" by blast
  from a b show ?thesis by (rule conjI)
qed

theorem C8_witness:
  "Walk (exWorld []) (InputDir (exTextIn ActionAdd exTwiceConfig))
     = [Visit ''twice'' True None] @ Visit ''twice/CN.TXT'' False None # [] @ Visit ''twice/cn.txt'' False None # []
   \<and> entryNameOf (exWorld []) ''twice/CN.TXT'' [] = Inr ''CN''
   \<and> entryNameOf (exWorld []) ''twice/cn.txt'' [] = Inr ''CN''
   \<and> Input (exWorld []) (exTextIn ActionAdd exTwiceConfig) [] = Inl (DuplicatedList ''CN'')"
proof -
  let ?t = "exTextIn ActionAdd exTwiceConfig"
  have walk: "Walk (exWorld []) (InputDir ?t)
     = [Visit ''twice'' True None] @ Visit ''twice/CN.TXT'' False None # [] @ Visit ''twice/cn.txt'' False None # []"
    by code_simp
  have dir: "InputDir ?t \<noteq> []" by code_simp
  have c1: "entryNameOf (exWorld []) ''twice/CN.TXT'' [] = Inr ''CN''" by code_simp
  have c2: "entryNameOf (exWorld []) ''twice/cn.txt'' [] = Inr ''CN''" by code_simp
  have want: "Want ?t = {} \<or> ''CN'' \<in> Want ?t" by code_simp
  have front: "walkVisits (exWorld []) ?t ([Visit ''twice'' True None] @ Visit ''twice/CN.TXT'' False None # []) []
                 = Inr [(''CN'', (''CN'', [''3.0.0.0/8'']))]"
    by code_simp
  from C8_duplicated_list[OF walk dir c1 c2 want, of "[]"]
  have "\<forall>es. walkVisits (exWorld []) ?t ([Visit ''twice'' True None] @ Visit ''twice/CN.TXT'' False None # []) [] = Inr es
          \<longrightarrow> Input (exWorld []) ?t [] = Inl (DuplicatedList ''CN'')"
    by (rule conjunct2)
  then have "walkVisits (exWorld []) ?t ([Visit ''twice'' True None] @ Visit ''twice/CN.TXT'' False None # []) []
                 = Inr [(''CN'', (''CN'', [''3.0.0.0/8'']))]
          \<longrightarrow> Input (exWorld []) ?t [] = Inl (DuplicatedList ''CN'')"
    by (rule spec)
  then have "Input (exWorld []) ?t [] = Inl (DuplicatedList ''CN'')"
    using front by (rule mp)
  with walk c1 c2 show ?thesis by (intro conjI)
qed

section \<open>File names\<close>

lemma LastIndex_no_dot: "CHR ''.'' \<notin> set s \<Longrightarrow> LastIndex s ''.'' = None"
  by (induction s) (auto simp: HasPrefix_def)

lemma LastIndex_last_dot:
  "CHR ''.'' \<notin> set ext \<Longrightarrow> LastIndex (stem @ CHR ''.'' # ext) ''.'' = Some (length stem)"
  by (induction stem) (auto simp: LastIndex_no_dot HasPrefix_def)

lemma LastIndex_only_leading_dot:
  "CHR ''.'' \<notin> set (tl s) \<Longrightarrow> LastIndex s ''.'' = None \<or> LastIndex s ''.'' = Some 0"
  by (cases s) (auto simp: LastIndex_no_dot)

lemma entryNameOf_unnamed_bad:
  "TrimSpace env name = [] \<Longrightarrow> \<not> matchesNamePattern (Base path) \<Longrightarrow>
     entryNameOf env path name = Inl (BadFilename (Base path))"
  by (simp add: entryNameOf_def)

lemma entryNameOf_unnamed_stem:
  assumes "TrimSpace env name = []" and "matchesNamePattern (Base path)"
    and "Base path = stem @ CHR ''.'' # ext" and "stem \<noteq> []" and "CHR ''.'' \<notin> set ext"
  shows "entryNameOf env path name = Inr (ToUpper env stem)"
proof -
  have "LastIndex (Base path) ''.'' = Some (length stem)"
    using assms(3,5) by (simp add: LastIndex_last_dot)
  with assms show ?thesis by (simp add: entryNameOf_def)
qed

lemma entryNameOf_unnamed_whole:
  assumes "TrimSpace env name = []" and "matchesNamePattern (Base path)"
    and "CHR ''.'' \<notin> set (tl (Base path))"
  shows "entryNameOf env path name = Inr (ToUpper env (Base path))"
  using LastIndex_only_leading_dot[OF assms(3)] assms(1,2)
  by (auto simp: entryNameOf_def)

lemma walkVisits_bad_file:
  assumes "TrimSpace env [] = []"
    and "Visit path False None \<in> set vs" and "\<not> matchesNamePattern (Base path)"
  shows "\<exists>err. walkVisits env t vs es = Inl err"
  using assms(2)
proof (induction vs arbitrary: es)
  case Nil
  then show ?case by simp
next
  case (Cons v vs)
  obtain p isDir werr where v: "v = Visit p isDir werr" by (cases v)
  show ?case
  proof (cases "v = Visit path False None")
    case True
    have "walkLocalFile env t path [] es = Inl (BadFilename (Base path))"
      using assms(1,3) by (simp add: walkLocalFile_def entryNameOf_unnamed_bad)
    with True show ?thesis by simp
  next
    case False
    with Cons.prems have "Visit path False None \<in> set vs" by simp
    from Cons.IH[OF this] have ih: "\<And>es'. \<exists>err. walkVisits env t vs es' = Inl err" .
    show ?thesis
    proof (cases "walkVisits env t (v # vs) es")
      case (Inl err)
      then show ?thesis by blast
    next
      case (Inr es'')
      then obtain es' where "walkVisits env t vs es' = Inr es''"
        unfolding v by (auto split: option.splits if_splits sum.splits)
      with ih[of es'] show ?thesis by simp
    qed
  qed
qed

text \<open>
  Claim C9, as amended. The check of the file name is made when Input reads the source,
  not when the converter is constructed. For a source without a name (a file of the
  directory walk, or a local file whose name trims to nothing) whose file name does not
  match the pattern, walkLocalFile returns the file-name error, and Input fails when the
  walked directory holds such a file or the local file of name+uri mode is one. For a
  file name that matches and does not start with a dot, the entry name is the upper-cased
  file name without its extension (the part from the last dot on); for a file name that
  matches and has no dot after its first character (a hidden file without a further dot,
  or a name without any dot) it is the whole upper-cased file name. Nothing is said of a
  hidden file with a further dot.
\<close>

theorem C9_amended_file_name_pattern:
  assumes "TrimSpace env [] = []"
  shows "(\<forall>path name es. TrimSpace env name = [] \<and> \<not> matchesNamePattern (Base path) \<longrightarrow>
            walkLocalFile env t path name es = Inl (BadFilename (Base path)))
       \<and> (\<forall>path. InputDir t \<noteq> [] \<and> Visit path False None \<in> set (Walk env (InputDir t))
             \<and> \<not> matchesNamePattern (Base path) \<longrightarrow>
            (\<exists>err. Input env t c = Inl err))
       \<and> (\<forall>path name stem ext. TrimSpace env name = [] \<and> matchesNamePattern (Base path)
             \<and> Base path = stem @ CHR ''.'' # ext \<and> stem \<noteq> [] \<and> hd stem \<noteq> CHR ''.''
             \<and> CHR ''.'' \<notin> set ext \<longrightarrow>
            entryNameOf env path name = Inr (ToUpper env stem))
       \<and> (\<forall>path name. TrimSpace env name = [] \<and> matchesNamePattern (Base path)
             \<and> CHR ''.'' \<notin> set (tl (Base path)) \<longrightarrow>
            entryNameOf env path name = Inr (ToUpper env (Base path)))
       \<and> (InputDir t = [] \<and> Name t \<noteq> [] \<and> URI t \<noteq> []
             \<and> \<not> (HasPrefix (ToLower env (URI t)) ''http://''
                   \<or> HasPrefix (ToLower env (URI t)) ''https://'')
             \<and> TrimSpace env (Name t) = [] \<and> \<not> matchesNamePattern (Base (URI t)) \<longrightarrow>
            Input env t c = Inl (BadFilename (Base (URI t))))"
proof -
  have bad: "\<forall>path name es. TrimSpace env name = [] \<and> \<not> matchesNamePattern (Base path) \<longrightarrow>
            walkLocalFile env t path name es = Inl (BadFilename (Base path))"
    by (simp add: walkLocalFile_def entryNameOf_unnamed_bad)
  have run: "\<forall>path. InputDir t \<noteq> [] \<and> Visit path False None \<in> set (Walk env (InputDir t))
             \<and> \<not> matchesNamePattern (Base path) \<longrightarrow>
            (\<exists>err. Input env t c = Inl err)"
  proof (intro allI impI)
    fix path
    assume h: "InputDir t \<noteq> [] \<and> Visit path False None \<in> set (Walk env (InputDir t))
             \<and> \<not> matchesNamePattern (Base path)"
    then have d: "InputDir t \<noteq> []" and v: "Visit path False None \<in> set (Walk env (InputDir t))"
      and m: "\<not> matchesNamePattern (Base path)" by simp_all
    from walkVisits_bad_file[OF assms v m, of t "[]"]
    obtain err where "walkVisits env t (Walk env (InputDir t)) [] = Inl err" by blast
    with d have "Input env t c = Inl err"
      by (simp add: Input_def readSources_def walkDir_def)
    then show "\<exists>err. Input env t c = Inl err" by (rule exI)
  qed
  have stem: "\<forall>path name stem ext. TrimSpace env name = [] \<and> matchesNamePattern (Base path)
             \<and> Base path = stem @ CHR ''.'' # ext \<and> stem \<noteq> [] \<and> hd stem \<noteq> CHR ''.''
             \<and> CHR ''.'' \<notin> set ext \<longrightarrow>
            entryNameOf env path name = Inr (ToUpper env stem)"
    using entryNameOf_unnamed_stem by blast
  have whole: "\<forall>path name. TrimSpace env name = [] \<and> matchesNamePattern (Base path)
             \<and> CHR ''.'' \<notin> set (tl (Base path)) \<longrightarrow>
            entryNameOf env path name = Inr (ToUpper env (Base path))"
    using entryNameOf_unnamed_whole by blast
  have uri: "InputDir t = [] \<and> Name t \<noteq> [] \<and> URI t \<noteq> []
             \<and> \<not> (HasPrefix (ToLower env (URI t)) ''http://''
                   \<or> HasPrefix (ToLower env (URI t)) ''https://'')
             \<and> TrimSpace env (Name t) = [] \<and> \<not> matchesNamePattern (Base (URI t)) \<longrightarrow>
            Input env t c = Inl (BadFilename (Base (URI t)))"
    by (simp add: Input_def readSources_def uriStep_def walkLocalFile_def entryNameOf_unnamed_bad)
  from bad run stem whole uri show ?thesis by (intro conjI)
qed

theorem C9_counterexample:
  "newTextIn (exWorld []\<lparr>Unmarshal := \<lambda>data. Inr exOddConfig\<rparr>) ActionAdd ''{}''
     = Inr (exTextIn ActionAdd exOddConfig)
   \<and> Walk (exWorld []) (InputDir (exTextIn ActionAdd exOddConfig))
       = [Visit ''odd'' True None, Visit ''odd/a b.txt'' False None]
   \<and> \<not> matchesNamePattern (Base ''odd/a b.txt'')
   \<and> Input (exWorld []) (exTextIn ActionAdd exOddConfig) [] = Inl (BadFilename ''a b.txt'')
   \<and> matchesNamePattern (Base ''data/cn.txt'')
   \<and> entryNameOf (exWorld []) ''data/cn.txt'' [] = Inr ''CN''"
  by code_simp

theorem C9_witness:
  "TrimSpace (exWorld []) [] = []
   \<and> walkLocalFile (exWorld []) (exTextIn ActionAdd exOddConfig) ''odd/a b.txt'' [] []
       = Inl (BadFilename ''a b.txt'')
   \<and> (\<exists>err. Input (exWorld []) (exTextIn ActionAdd exOddConfig) [] = Inl err)
   \<and> entryNameOf (exWorld []) ''data/cn.txt'' [] = Inr ''CN''
   \<and> entryNameOf (exWorld []) ''data/.hidden'' [] = Inr ''.HIDDEN''"
proof -
  let ?t = "exTextIn ActionAdd exOddConfig"
  have ts: "TrimSpace (exWorld []) [] = []" by code_simp
  note c9 = C9_amended_file_name_pattern[OF ts, of ?t "[]"]
  have b: "Base ''odd/a b.txt'' = ''a b.txt''" by code_simp
  have h1: "TrimSpace (exWorld []) [] = [] \<and> \<not> matchesNamePattern (Base ''odd/a b.txt'')"
    by code_simp
  from c9 have "\<forall>path name es. TrimSpace (exWorld []) name = [] \<and> \<not> matchesNamePattern (Base path) \<longrightarrow>
            walkLocalFile (exWorld []) ?t path name es = Inl (BadFilename (Base path))"
    by (rule conjunct1)
  then have "TrimSpace (exWorld []) [] = [] \<and> \<not> matchesNamePattern (Base ''odd/a b.txt'') \<longrightarrow>
            walkLocalFile (exWorld []) ?t ''odd/a b.txt'' [] [] = Inl (BadFilename (Base ''odd/a b.txt''))"
    by (elim allE)
  then have "walkLocalFile (exWorld []) ?t ''odd/a b.txt'' [] [] = Inl (BadFilename (Base ''odd/a b.txt''))"
    using h1 by (rule mp)
  then have w1: "walkLocalFile (exWorld []) ?t ''odd/a b.txt'' [] [] = Inl (BadFilename ''a b.txt'')"
    by (simp only: b)
  have h2: "InputDir ?t \<noteq> [] \<and> Visit ''odd/a b.txt'' False None \<in> set (Walk (exWorld []) (InputDir ?t))
             \<and> \<not> matchesNamePattern (Base ''odd/a b.txt'')"
    by code_simp
  from c9 have "\<forall>path. InputDir ?t \<noteq> [] \<and> Visit path False None \<in> set (Walk (exWorld []) (InputDir ?t))
             \<and> \<not> matchesNamePattern (Base path) \<longrightarrow>
            (\<exists>err. Input (exWorld []) ?t [] = Inl err)"
    by (rule conjunct1[OF conjunct2])
  then have "InputDir ?t \<noteq> [] \<and> Visit ''odd/a b.txt'' False None \<in> set (Walk (exWorld []) (InputDir ?t))
             \<and> \<not> matchesNamePattern (Base ''odd/a b.txt'') \<longrightarrow>
            (\<exists>err. Input (exWorld []) ?t [] = Inl err)"
    by (rule spec)
  then have w2: "\<exists>err. Input (exWorld []) ?t [] = Inl err"
    using h2 by (rule mp)
  have h3: "TrimSpace (exWorld []) [] = [] \<and> matchesNamePattern (Base ''data/cn.txt'')
             \<and> Base ''data/cn.txt'' = ''cn'' @ CHR ''.'' # ''txt'' \<and> ''cn'' \<noteq> [] \<and> hd ''cn'' \<noteq> CHR ''.''
             \<and> CHR ''.'' \<notin> set ''txt''"
    by code_simp
  from c9 have "\<forall>path name stem ext. TrimSpace (exWorld []) name = [] \<and> matchesNamePattern (Base path)
             \<and> Base path = stem @ CHR ''.'' # ext \<and> stem \<noteq> [] \<and> hd stem \<noteq> CHR ''.''
             \<and> CHR ''.'' \<notin> set ext \<longrightarrow>
            entryNameOf (exWorld []) path name = Inr (ToUpper (exWorld []) stem)"
    by (rule conjunct1[OF conjunct2[OF conjunct2]])
  then have "TrimSpace (exWorld []) [] = [] \<and> matchesNamePattern (Base ''data/cn.txt'')
             \<and> Base ''data/cn.txt'' = ''cn'' @ CHR ''.'' # ''txt'' \<and> ''cn'' \<noteq> [] \<and> hd ''cn'' \<noteq> CHR ''.''
             \<and> CHR ''.'' \<notin> set ''txt'' \<longrightarrow>
            entryNameOf (exWorld []) ''data/cn.txt'' [] = Inr (ToUpper (exWorld []) ''cn'')"
    by (elim allE)
  then have "entryNameOf (exWorld []) ''data/cn.txt'' [] = Inr (ToUpper (exWorld []) ''cn'')"
    using h3 by (rule mp)
  moreover have "ToUpper (exWorld []) ''cn'' = ''CN''" by code_simp
  ultimately have w3: "entryNameOf (exWorld []) ''data/cn.txt'' [] = Inr ''CN''" by simp
  have h4: "TrimSpace (exWorld []) [] = [] \<and> matchesNamePattern (Base ''data/.hidden'')
             \<and> CHR ''.'' \<notin> set (tl (Base ''data/.hidden''))"
    by code_simp
  from c9 have "\<forall>path name. TrimSpace (exWorld []) name = [] \<and> matchesNamePattern (Base path)
             \<and> CHR ''.'' \<notin> set (tl (Base path)) \<longrightarrow>
            entryNameOf (exWorld []) path name = Inr (ToUpper (exWorld []) (Base path))"
    by (rule conjunct1[OF conjunct2[OF conjunct2[OF conjunct2]]])
  then have "TrimSpace (exWorld []) [] = [] \<and> matchesNamePattern (Base ''data/.hidden'')
             \<and> CHR ''.'' \<notin> set (tl (Base ''data/.hidden'')) \<longrightarrow>
            entryNameOf (exWorld []) ''data/.hidden'' [] = Inr (ToUpper (exWorld []) (Base ''data/.hidden''))"
    by (elim allE)
  then have "entryNameOf (exWorld []) ''data/.hidden'' [] = Inr (ToUpper (exWorld []) (Base ''data/.hidden''))"
    using h4 by (rule mp)
  moreover have "ToUpper (exWorld []) (Base ''data/.hidden'') = ''.HIDDEN''" by code_simp
  ultimately have w4: "entryNameOf (exWorld []) ''data/.hidden'' [] = Inr ''.HIDDEN''" by simp
  from ts w1 w2 w3 w4 show ?thesis by (intro conjI)
qed

section \<open>The lines of a source\<close>

lemma removePrefixes_foldl:
  "removePrefixes env line ps = foldl (stripPrefixValue env) line ps"
  by (induction ps arbitrary: line) (simp_all add: stripPrefixValue_def TrimPrefix_def Let_def)

lemma removeSuffixes_foldl:
  "removeSuffixes env line ss = foldl (stripSuffixValue env) line ss"
  by (induction ss arbitrary: line) (simp_all add: stripSuffixValue_def TrimSuffix_def Let_def)

lemma normalizeLine_spec: "normalizeLine env t raw = specNormalize env t raw"
  by (simp add: normalizeLine_def specNormalize_def Let_def removePrefixes_foldl
      removeSuffixes_foldl stripComments_cutAtFirstMarker)

lemma scanLines_feeds:
  "scanLines env t ls entry =
     applyAll (AddPrefix env) (List.map_filter (specNormalize env t) ls) entry"
proof (induction ls arbitrary: entry)
  case Nil
  then show ?case by (simp add: List.map_filter_simps)
next
  case (Cons l ls)
  show ?case
  proof (cases "specNormalize env t l")
    case None
    then show ?thesis
      by (simp add: List.map_filter_simps normalizeLine_spec Cons.IH)
  next
    case (Some tx)
    then show ?thesis
      by (simp add: List.map_filter_simps normalizeLine_spec Cons.IH split: sum.splits)
  qed
qed

lemma applyAll_append:
  "applyAll f (xs @ ys) c =
     (case applyAll f xs c of Inl err \<Rightarrow> Inl err | Inr c' \<Rightarrow> applyAll f ys c')"
  by (induction xs arbitrary: c) (simp_all split: sum.splits)

lemma applyAll_first_failure:
  "applyAll f xs c = Inr c' \<Longrightarrow> f c' x = Inl msg \<Longrightarrow>
     applyAll f (xs @ x # ys) c = Inl (External msg)"
  by (simp add: applyAll_append)

lemma scanFile_parse_failure:
  assumes "List.map_filter (specNormalize env t) (fst rd) = texts @ text # rest"
    and "applyAll (AddPrefix env) texts entry = Inr entry'"
    and "AddPrefix env entry' text = Inl msg"
  shows "scanFile env t rd entry = Inl (External msg)"
proof -
  have "scanLines env t (fst rd) entry = Inl (External msg)"
    unfolding scanLines_feeds assms(1) using assms(2,3) by (rule applyAll_first_failure)
  then show ?thesis by (simp add: scanFile_def)
qed

lemma walkLocalFile_scan_error:
  assumes "entryNameOf env path name = Inr code" and "Want t = {} \<or> code \<in> Want t"
    and "map_of es code = None" and "Open env path = Inr rd"
    and "scanFile env t rd (NewEntry env code) = Inl err"
  shows "walkLocalFile env t path name es = Inl err"
  using assms by (auto simp: walkLocalFile_def)

lemma walkRemoteFile_scan_error:
  assumes "HttpGet env url = Inr (200, rd)" and "Want t = {} \<or> ToUpper env name \<in> Want t"
    and "scanFile env t rd (NewEntry env (ToUpper env name)) = Inl err"
  shows "walkRemoteFile env t url name es = Inl err"
  using assms by (auto simp: walkRemoteFile_def)

lemma Input_uri_error:
  "InputDir t = [] \<Longrightarrow> Name t \<noteq> [] \<Longrightarrow> URI t \<noteq> [] \<Longrightarrow> uriStep env t = Inl err \<Longrightarrow>
     Input env t c = Inl err"
  by (simp add: Input_def readSources_def)

lemma Input_walk_error:
  assumes "InputDir t \<noteq> []" and "Walk env (InputDir t) = pre @ Visit path False None # post"
    and "walkVisits env t pre [] = Inr es" and "walkLocalFile env t path [] es = Inl err"
  shows "Input env t c = Inl err"
proof -
  have "walkVisits env t (pre @ Visit path False None # post) [] = Inl err"
    using assms(3,4) by (simp add: walkVisits_append)
  with assms(1,2) show ?thesis
    by (simp add: Input_def readSources_def walkDir_def)
qed

text \<open>
  Claim C4. The text that scanFile prepares from a line is the one the specification
  describes (cut at the first comment marker, trimmed, skipped when empty, lower-cased,
  the trimmed and lower-cased prefix values and then suffix values removed in their order
  with a trim after each, skipped when empty). scanFile gives the texts that are not
  skipped to AddPrefix in order; the first AddPrefix that fails makes scanFile return its
  error; and an error of scanFile is the result of Input, whether the source is a file of
  the directory walk, the local file of name+uri mode or its remote file.
\<close>

theorem C4_line_normalization_and_parse_failure:
  "normalizeLine env t raw = specNormalize env t raw
   \<and> scanLines env t ls entry
       = applyAll (AddPrefix env) (List.map_filter (specNormalize env t) ls) entry
   \<and> (\<forall>rd texts tx rest entry' msg.
         List.map_filter (specNormalize env t) (fst rd) = texts @ tx # rest
         \<and> applyAll (AddPrefix env) texts entry = Inr entry'
         \<and> AddPrefix env entry' tx = Inl msg \<longrightarrow>
         scanFile env t rd entry = Inl (External msg))
   \<and> (\<forall>pre path post es code rd err.
         InputDir t \<noteq> [] \<and> Walk env (InputDir t) = pre @ Visit path False None # post
         \<and> walkVisits env t pre [] = Inr es \<and> entryNameOf env path [] = Inr code
         \<and> (Want t = {} \<or> code \<in> Want t) \<and> map_of es code = None
         \<and> Open env path = Inr rd \<and> scanFile env t rd (NewEntry env code) = Inl err \<longrightarrow>
         Input env t c = Inl err)
   \<and> (\<forall>code rd err.
         InputDir t = [] \<and> Name t \<noteq> [] \<and> URI t \<noteq> []
         \<and> \<not> (HasPrefix (ToLower env (URI t)) ''http://''
               \<or> HasPrefix (ToLower env (URI t)) ''https://'')
         \<and> entryNameOf env (URI t) (Name t) = Inr code
         \<and> (Want t = {} \<or> code \<in> Want t)
         \<and> Open env (URI t) = Inr rd \<and> scanFile env t rd (NewEntry env code) = Inl err \<longrightarrow>
         Input env t c = Inl err)
   \<and> (\<forall>rd err.
         InputDir t = [] \<and> Name t \<noteq> [] \<and> URI t \<noteq> []
         \<and> (HasPrefix (ToLower env (URI t)) ''http://''
             \<or> HasPrefix (ToLower env (URI t)) ''https://'')
         \<and> HttpGet env (URI t) = Inr (200, rd)
         \<and> (Want t = {} \<or> ToUpper env (Name t) \<in> Want t)
         \<and> scanFile env t rd (NewEntry env (ToUpper env (Name t))) = Inl err \<longrightarrow>
         Input env t c = Inl err)"
proof -
  have scan: "\<forall>rd texts tx rest entry' msg.
         List.map_filter (specNormalize env t) (fst rd) = texts @ tx # rest
         \<and> applyAll (AddPrefix env) texts entry = Inr entry'
         \<and> AddPrefix env entry' tx = Inl msg \<longrightarrow>
         scanFile env t rd entry = Inl (External msg)"
    by (intro allI impI, elim conjE) (rule scanFile_parse_failure)
  have walk: "\<forall>pre path post es code rd err.
         InputDir t \<noteq> [] \<and> Walk env (InputDir t) = pre @ Visit path False None # post
         \<and> walkVisits env t pre [] = Inr es \<and> entryNameOf env path [] = Inr code
         \<and> (Want t = {} \<or> code \<in> Want t) \<and> map_of es code = None
         \<and> Open env path = Inr rd \<and> scanFile env t rd (NewEntry env code) = Inl err \<longrightarrow>
         Input env t c = Inl err"
  proof (intro allI impI, elim conjE)
    fix pre path post es code rd err
    assume d: "InputDir t \<noteq> []" and w: "Walk env (InputDir t) = pre @ Visit path False None # post"
      and p: "walkVisits env t pre [] = Inr es" and n: "entryNameOf env path [] = Inr code"
      and wa: "Want t = {} \<or> code \<in> Want t" and m: "map_of es code = None"
      and opn: "Open env path = Inr rd" and s: "scanFile env t rd (NewEntry env code) = Inl err"
    from walkLocalFile_scan_error[OF n wa m opn s]
    have "walkLocalFile env t path [] es = Inl err" .
    from Input_walk_error[OF d w p this] show "Input env t c = Inl err" .
  qed
  have local: "\<forall>code rd err.
         InputDir t = [] \<and> Name t \<noteq> [] \<and> URI t \<noteq> []
         \<and> \<not> (HasPrefix (ToLower env (URI t)) ''http://''
               \<or> HasPrefix (ToLower env (URI t)) ''https://'')
         \<and> entryNameOf env (URI t) (Name t) = Inr code
         \<and> (Want t = {} \<or> code \<in> Want t)
         \<and> Open env (URI t) = Inr rd \<and> scanFile env t rd (NewEntry env code) = Inl err \<longrightarrow>
         Input env t c = Inl err"
  proof (intro allI impI, elim conjE)
    fix code rd err
    assume d: "InputDir t = []" and nm: "Name t \<noteq> []" and u: "URI t \<noteq> []"
      and h: "\<not> (HasPrefix (ToLower env (URI t)) ''http://''
               \<or> HasPrefix (ToLower env (URI t)) ''https://'')"
      and n: "entryNameOf env (URI t) (Name t) = Inr code"
      and wa: "Want t = {} \<or> code \<in> Want t"
      and opn: "Open env (URI t) = Inr rd" and s: "scanFile env t rd (NewEntry env code) = Inl err"
    have m: "map_of ([] :: 'a entries) code = None" by simp
    from walkLocalFile_scan_error[OF n wa m opn s]
    have "walkLocalFile env t (URI t) (Name t) [] = Inl err" .
    with h have "uriStep env t = Inl err" by (simp add: uriStep_def)
    from Input_uri_error[OF d nm u this] show "Input env t c = Inl err" .
  qed
  have remote: "\<forall>rd err.
         InputDir t = [] \<and> Name t \<noteq> [] \<and> URI t \<noteq> []
         \<and> (HasPrefix (ToLower env (URI t)) ''http://''
             \<or> HasPrefix (ToLower env (URI t)) ''https://'')
         \<and> HttpGet env (URI t) = Inr (200, rd)
         \<and> (Want t = {} \<or> ToUpper env (Name t) \<in> Want t)
         \<and> scanFile env t rd (NewEntry env (ToUpper env (Name t))) = Inl err \<longrightarrow>
         Input env t c = Inl err"
  proof (intro allI impI, elim conjE)
    fix rd err
    assume d: "InputDir t = []" and nm: "Name t \<noteq> []" and u: "URI t \<noteq> []"
      and h: "HasPrefix (ToLower env (URI t)) ''http://''
             \<or> HasPrefix (ToLower env (URI t)) ''https://''"
      and g: "HttpGet env (URI t) = Inr (200, rd)"
      and wa: "Want t = {} \<or> ToUpper env (Name t) \<in> Want t"
      and s: "scanFile env t rd (NewEntry env (ToUpper env (Name t))) = Inl err"
    from walkRemoteFile_scan_error[OF g wa s]
    have "walkRemoteFile env t (URI t) (Name t) [] = Inl err" .
    with h have "uriStep env t = Inl err" by (simp add: uriStep_def)
    from Input_uri_error[OF d nm u this] show "Input env t c = Inl err" .
  qed
  from normalizeLine_spec scanLines_feeds scan walk local remote show ?thesis
    by (intro conjI)
qed

theorem C4_witness:
  "normalizeLine (exWorld []) (exTextIn ActionAdd exDirConfig) '' IP-CIDR,10.0.0.0/8,no-resolve // ten''
     = Some ''10.0.0.0/8''
   \<and> List.map_filter (specNormalize (exWorld []) (exTextIn ActionAdd exBadConfig))
        [''4.0.0.0/8'', ''not an address'', ''5.0.0.0/8'']
       = [''4.0.0.0/8''] @ ''not an address'' # [''5.0.0.0/8'']
   \<and> Input (exWorld []) (exTextIn ActionAdd exBadConfig) []
       = Inl (External ''invalid: not an address'')"
proof -
  let ?env = "exWorld [] :: (exEntry, exCall list) env"
  let ?t = "exTextIn ActionAdd exBadConfig"
  let ?rd = "([''4.0.0.0/8'', ''not an address'', ''5.0.0.0/8''], None) :: reader"
  note c4 = C4_line_normalization_and_parse_failure[of ?env ?t _ _ "NewEntry ?env ''BAD''" "[]"]
  have n1: "specNormalize ?env (exTextIn ActionAdd exDirConfig) '' IP-CIDR,10.0.0.0/8,no-resolve // ten''
              = Some ''10.0.0.0/8''"
    by code_simp
  have n: "normalizeLine ?env (exTextIn ActionAdd exDirConfig) '' IP-CIDR,10.0.0.0/8,no-resolve // ten''
              = Some ''10.0.0.0/8''"
    using conjunct1[OF C4_line_normalization_and_parse_failure[of ?env "exTextIn ActionAdd exDirConfig"
        "'' IP-CIDR,10.0.0.0/8,no-resolve // ten''"]] n1
    by (rule trans)
  have f: "List.map_filter (specNormalize ?env ?t) [''4.0.0.0/8'', ''not an address'', ''5.0.0.0/8'']
       = [''4.0.0.0/8''] @ ''not an address'' # [''5.0.0.0/8'']"
    by code_simp
  have h1: "List.map_filter (specNormalize ?env ?t) (fst ?rd) = [''4.0.0.0/8''] @ ''not an address'' # [''5.0.0.0/8'']
         \<and> applyAll (AddPrefix ?env) [''4.0.0.0/8''] (NewEntry ?env ''BAD'') = Inr (''BAD'', [''4.0.0.0/8''])
         \<and> AddPrefix ?env (''BAD'', [''4.0.0.0/8'']) ''not an address'' = Inl ''invalid: not an address''"
    by code_simp
  from c4 have "\<forall>rd texts tx rest entry' msg.
         List.map_filter (specNormalize ?env ?t) (fst rd) = texts @ tx # rest
         \<and> applyAll (AddPrefix ?env) texts (NewEntry ?env ''BAD'') = Inr entry'
         \<and> AddPrefix ?env entry' tx = Inl msg \<longrightarrow>
         scanFile ?env ?t rd (NewEntry ?env ''BAD'') = Inl (External msg)"
    by (rule conjunct1[OF conjunct2[OF conjunct2]])
  then have "List.map_filter (specNormalize ?env ?t) (fst ?rd) = [''4.0.0.0/8''] @ ''not an address'' # [''5.0.0.0/8'']
         \<and> applyAll (AddPrefix ?env) [''4.0.0.0/8''] (NewEntry ?env ''BAD'') = Inr (''BAD'', [''4.0.0.0/8''])
         \<and> AddPrefix ?env (''BAD'', [''4.0.0.0/8'']) ''not an address'' = Inl ''invalid: not an address'' \<longrightarrow>
         scanFile ?env ?t ?rd (NewEntry ?env ''BAD'') = Inl (External ''invalid: not an address'')"
    by (elim allE)
  then have s: "scanFile ?env ?t ?rd (NewEntry ?env ''BAD'') = Inl (External ''invalid: not an address'')"
    using h1 by (rule mp)
  have h2: "InputDir ?t = [] \<and> Name ?t \<noteq> [] \<and> URI ?t \<noteq> []
         \<and> \<not> (HasPrefix (ToLower ?env (URI ?t)) ''http://''
               \<or> HasPrefix (ToLower ?env (URI ?t)) ''https://'')
         \<and> entryNameOf ?env (URI ?t) (Name ?t) = Inr ''BAD''
         \<and> (Want ?t = {} \<or> ''BAD'' \<in> Want ?t)
         \<and> Open ?env (URI ?t) = Inr ?rd"
    by code_simp
  from c4 have "\<forall>code rd err.
         InputDir ?t = [] \<and> Name ?t \<noteq> [] \<and> URI ?t \<noteq> []
         \<and> \<not> (HasPrefix (ToLower ?env (URI ?t)) ''http://''
               \<or> HasPrefix (ToLower ?env (URI ?t)) ''https://'')
         \<and> entryNameOf ?env (URI ?t) (Name ?t) = Inr code
         \<and> (Want ?t = {} \<or> code \<in> Want ?t)
         \<and> Open ?env (URI ?t) = Inr rd \<and> scanFile ?env ?t rd (NewEntry ?env code) = Inl err \<longrightarrow>
         Input ?env ?t [] = Inl err"
    by (rule conjunct1[OF conjunct2[OF conjunct2[OF conjunct2[OF conjunct2]]]])
  then have "InputDir ?t = [] \<and> Name ?t \<noteq> [] \<and> URI ?t \<noteq> []
         \<and> \<not> (HasPrefix (ToLower ?env (URI ?t)) ''http://''
               \<or> HasPrefix (ToLower ?env (URI ?t)) ''https://'')
         \<and> entryNameOf ?env (URI ?t) (Name ?t) = Inr ''BAD''
         \<and> (Want ?t = {} \<or> ''BAD'' \<in> Want ?t)
         \<and> Open ?env (URI ?t) = Inr ?rd
         \<and> scanFile ?env ?t ?rd (NewEntry ?env ''BAD'') = Inl (External ''invalid: not an address'') \<longrightarrow>
         Input ?env ?t [] = Inl (External ''invalid: not an address'')"
    by (elim allE)
  moreover from h2 s have "InputDir ?t = [] \<and> Name ?t \<noteq> [] \<and> URI ?t \<noteq> []
         \<and> \<not> (HasPrefix (ToLower ?env (URI ?t)) ''http://''
               \<or> HasPrefix (ToLower ?env (URI ?t)) ''https://'')
         \<and> entryNameOf ?env (URI ?t) (Name ?t) = Inr ''BAD''
         \<and> (Want ?t = {} \<or> ''BAD'' \<in> Want ?t)
         \<and> Open ?env (URI ?t) = Inr ?rd
         \<and> scanFile ?env ?t ?rd (NewEntry ?env ''BAD'') = Inl (External ''invalid: not an address'')"
    by (intro conjI) (elim conjE, assumption)+
  ultimately have i: "Input ?env ?t [] = Inl (External ''invalid: not an address'')"
    by (rule mp)
  from n f i show ?thesis by (intro conjI)
qed

end
